theory Spec2Isabelle
  imports Main "HOL-Library.Char_ord" "HOL-Library.List_Lexorder" "HOL-Library.Product_Lexorder"
begin

section \<open>Parsed JSON documents\<close>

text \<open>
  \<^verbatim>\<open>scripts/compare-openapi-breaking.py\<close> compares two OpenAPI documents that
  \<^verbatim>\<open>json.load\<close> has parsed. A parsed document is a tree of Python values:
  \<^verbatim>\<open>None\<close>, \<^verbatim>\<open>bool\<close>, \<^verbatim>\<open>int\<close>, \<^verbatim>\<open>str\<close>, \<^verbatim>\<open>list\<close> and \<^verbatim>\<open>dict\<close> with string keys.
  A dict is an association list read through \<open>map_of\<close> (the first binding of a key is
  the dict's value for it). Numbers are Python's unbounded integers; numbers with a
  fraction are outside this model. Strings are byte strings, ordered bytewise, which is
  the order of the code points of their UTF-8 reading.
\<close>

datatype json =
    JNull
  | JBool bool
  | JNum int
  | JStr string
  | JArr "json list"
  | JObj "(string \<times> json) list"

text \<open>
  The exceptions the script can raise. \<open>RecursionError\<close> is what Python raises when
  calls nest deeper than the interpreter's recursion limit; \<open>LoadError\<close> stands for
  whatever \<^verbatim>\<open>open\<close> or \<^verbatim>\<open>json.load\<close> raise on an unreadable or malformed file.
\<close>

datatype error = TypeError | IndexError | KeyError | AttributeError | RecursionError | LoadError

definition andthen :: "error + 'a \<Rightarrow> ('a \<Rightarrow> error + 'b) \<Rightarrow> error + 'b" where
  "andthen m f = (case m of Inl e \<Rightarrow> Inl e | Inr x \<Rightarrow> f x)"

text \<open>Truth value of a Python object, as \<^verbatim>\<open>if x\<close>, \<^verbatim>\<open>not x\<close> and \<^verbatim>\<open>x or d\<close> test it.\<close>

fun py_truthy :: "json \<Rightarrow> bool" where
  "py_truthy JNull = False"
| "py_truthy (JBool b) = b"
| "py_truthy (JNum n) = (n \<noteq> 0)"
| "py_truthy (JStr s) = (s \<noteq> [])"
| "py_truthy (JArr xs) = (xs \<noteq> [])"
| "py_truthy (JObj kvs) = (kvs \<noteq> [])"

text \<open>\<^verbatim>\<open>x or d\<close>.\<close>

definition py_or :: "json \<Rightarrow> json \<Rightarrow> json" where
  "py_or x d = (if py_truthy x then x else d)"

text \<open>\<^verbatim>\<open>d.get(k)\<close> on a dict: \<^verbatim>\<open>None\<close> when the key is absent.\<close>

definition dict_get :: "(string \<times> json) list \<Rightarrow> string \<Rightarrow> json" where
  "dict_get kvs k = (case map_of kvs k of None \<Rightarrow> JNull | Some v \<Rightarrow> v)"

text \<open>
  Python equality \<^verbatim>\<open>x == y\<close> on parsed values: \<^verbatim>\<open>True == 1\<close> and \<^verbatim>\<open>False == 0\<close>, lists
  are equal elementwise, dicts are equal when they bind the same keys to equal values.
  Both sides are brought to a canonical form (booleans as numbers, dict entries
  sorted by key) and compared.
\<close>

fun dedup :: "(string \<times> 'a) list \<Rightarrow> (string \<times> 'a) list" where
  "dedup [] = []"
| "dedup (kv # kvs) = kv # dedup (filter (\<lambda>p. fst p \<noteq> fst kv) kvs)"

fun canon :: "json \<Rightarrow> json" where
  "canon (JBool b) = JNum (if b then 1 else 0)"
| "canon (JArr xs) = JArr (map canon xs)"
| "canon (JObj kvs) = JObj (sort_key fst (dedup (map (\<lambda>kv. (fst kv, canon (snd kv))) kvs)))"
| "canon v = v"

definition py_eq :: "json \<Rightarrow> json \<Rightarrow> bool" where
  "py_eq x y = (canon x = canon y)"

section \<open>Resolving \<^verbatim>\<open>$ref\<close> pointers\<close>

text \<open>\<^verbatim>\<open>s.split(sep)\<close> for a separator of one character, and \<^verbatim>\<open>s.startswith(p)\<close>.\<close>

fun split_on :: "char \<Rightarrow> string \<Rightarrow> string list" where
  "split_on sep [] = [[]]"
| "split_on sep (c # cs) =
     (if c = sep then [] # split_on sep cs
      else (case split_on sep cs of [] \<Rightarrow> [[c]] | t # ts \<Rightarrow> (c # t) # ts))"

definition startswith :: "string \<Rightarrow> string \<Rightarrow> bool" where
  "startswith s p = (take (length p) s = p)"

text \<open>
  The loop of \<^verbatim>\<open>resolve_ref\<close> over the tokens of the pointer:
  \<^verbatim>\<open>
    node = doc
    for token in ref[2:].split("/"):
        if not isinstance(node, dict) or token not in node:
            return schema
        node = node[token]
  \<close>
  \<open>None\<close> is the early \<^verbatim>\<open>return schema\<close>.
\<close>

fun walk :: "json \<Rightarrow> string list \<Rightarrow> json option" where
  "walk node [] = Some node"
| "walk (JObj kvs) (token # tokens) =
     (case map_of kvs token of None \<Rightarrow> None | Some v \<Rightarrow> walk v tokens)"
| "walk _ (token # tokens) = None"

text \<open>
  \<^verbatim>\<open>
  def resolve_ref(schema, doc, seen=None):
      if not isinstance(schema, dict):
          return schema
      ref = schema.get("$ref")
      if not ref or not isinstance(ref, str) or not ref.startswith("#/"):
          return schema
      seen = seen or set()
      if ref in seen:
          return schema
      seen.add(ref)
      node = doc
      for token in ref[2:].split("/"): ...
      return resolve_ref(node, doc, seen)
  \<close>
  \<open>seen\<close> is the set of pointers followed so far; the callers start it empty.
\<close>

function resolve_ref :: "json \<Rightarrow> json \<Rightarrow> string set \<Rightarrow> json" where
  "resolve_ref schema doc seen =
     (case schema of
        JObj kvs \<Rightarrow>
          (case dict_get kvs ''$ref'' of
             JStr ref \<Rightarrow>
               (if ref = [] \<or> \<not> startswith ref ''#/'' then schema
                else if ref \<in> seen then schema
                else (case walk doc (split_on CHR ''/'' (drop 2 ref)) of
                        None \<Rightarrow> schema
                      | Some node \<Rightarrow> resolve_ref node doc (insert ref seen)))
           | _ \<Rightarrow> schema)
      | _ \<Rightarrow> schema)"
  by pat_completeness auto

text \<open>
  \<open>resolve_ref\<close> is total. Every pointer followed after the first one is a string of
  the document, and none is followed twice: the strings of the document that are not
  yet in \<open>seen\<close> become fewer at every call (the pointer of the first call, when it is
  not a string of the document, counts one more).
\<close>

fun strs :: "json \<Rightarrow> string set" where
  "strs (JStr s) = {s}"
| "strs (JArr xs) = (\<Union>x \<in> set xs. strs x)"
| "strs (JObj kvs) = (\<Union>kv \<in> set kvs. strs (snd kv))"
| "strs _ = {}"

lemma finite_strs: "finite (strs v)"
  by (induction v rule: strs.induct) auto

definition own_ref_new :: "json \<Rightarrow> json \<Rightarrow> nat" where
  "own_ref_new schema doc =
     (case schema of
        JObj kvs \<Rightarrow>
          (case dict_get kvs ''$ref'' of
             JStr ref \<Rightarrow> (if ref \<in> strs doc then 0 else 1)
           | _ \<Rightarrow> 0)
      | _ \<Rightarrow> 0)"

lemma walk_strs: "walk d ts = Some node \<Longrightarrow> strs node \<subseteq> strs d"
proof (induction d ts rule: walk.induct)
  case (2 kvs token tokens)
  then obtain v where v: "map_of kvs token = Some v" and w: "walk v tokens = Some node"
    by (auto split: option.splits)
  from v have "(token, v) \<in> set kvs" by (rule map_of_SomeD)
  then have "strs v \<subseteq> strs (JObj kvs)" by force
  with 2 v w show ?case by auto
qed auto

lemma dict_get_strs: "dict_get kvs k = JStr r \<Longrightarrow> r \<in> strs (JObj kvs)"
proof -
  assume a: "dict_get kvs k = JStr r"
  then have "map_of kvs k = Some (JStr r)"
    by (auto simp: dict_get_def split: option.splits)
  then have "(k, JStr r) \<in> set kvs" by (rule map_of_SomeD)
  then show ?thesis by force
qed

lemma own_ref_new_sub: "strs node \<subseteq> strs doc \<Longrightarrow> own_ref_new node doc = 0"
  by (auto simp: own_ref_new_def dest: dict_get_strs split: json.splits)

termination resolve_ref
proof (relation "measure (\<lambda>(schema, doc, seen). card (strs doc - seen) + own_ref_new schema doc)")
  show "wf (measure (\<lambda>(schema, doc, seen). card (strs doc - seen) + own_ref_new schema doc))"
    by simp
next
  fix schema doc :: json and seen :: "string set" and kvs x4 node
  assume s: "schema = JObj kvs" and r: "dict_get kvs ''$ref'' = JStr x4"
    and ns: "x4 \<notin> seen" and w: "walk doc (split_on CHR ''/'' (drop 2 x4)) = Some node"
  have z: "own_ref_new node doc = 0" using walk_strs [OF w] by (rule own_ref_new_sub)
  show "((node, doc, insert x4 seen), schema, doc, seen)
      \<in> measure (\<lambda>(schema, doc, seen). card (strs doc - seen) + own_ref_new schema doc)"
  proof (cases "x4 \<in> strs doc")
    case True
    then have "strs doc - insert x4 seen \<subset> strs doc - seen" using ns by auto
    then have "card (strs doc - insert x4 seen) < card (strs doc - seen)"
      by (intro psubset_card_mono) (auto simp: finite_strs)
    then show ?thesis using z by simp
  next
    case False
    then have "strs doc - insert x4 seen = strs doc - seen" by auto
    moreover have "own_ref_new schema doc = 1" using s r False by (simp add: own_ref_new_def)
    ultimately show ?thesis using z by simp
  qed
qed


declare resolve_ref.simps [simp del]

section \<open>Python sets and \<^verbatim>\<open>sorted\<close>\<close>

text \<open>
  The members of a Python set are hashable: of the parsed values, \<^verbatim>\<open>None\<close>, booleans,
  integers and strings. \<^verbatim>\<open>set(x)\<close> raises \<^verbatim>\<open>TypeError\<close> on a list or dict member.
\<close>

datatype scalar = SNone | SBool bool | SNum int | SStr string

fun hashable :: "json \<Rightarrow> scalar option" where
  "hashable JNull = Some SNone"
| "hashable (JBool b) = Some (SBool b)"
| "hashable (JNum n) = Some (SNum n)"
| "hashable (JStr s) = Some (SStr s)"
| "hashable (JArr xs) = None"
| "hashable (JObj kvs) = None"

text \<open>
  Equal members are one member: \<^verbatim>\<open>True\<close> and \<^verbatim>\<open>1\<close> (and \<^verbatim>\<open>False\<close> and \<^verbatim>\<open>0\<close>) hash and
  compare equal. A set is a list without two equal members; \<^verbatim>\<open>s.add(x)\<close> keeps the
  member already there.
\<close>

fun hash_key :: "scalar \<Rightarrow> scalar" where
  "hash_key (SBool b) = SNum (if b then 1 else 0)"
| "hash_key s = s"

definition set_contains :: "scalar list \<Rightarrow> scalar \<Rightarrow> bool" where
  "set_contains s x = (hash_key x \<in> set (map hash_key s))"

definition set_add :: "scalar list \<Rightarrow> scalar \<Rightarrow> scalar list" where
  "set_add s x = (if set_contains s x then s else s @ [x])"

text \<open>
  Iterating a value (\<^verbatim>\<open>for x in v\<close>, \<^verbatim>\<open>set(v)\<close>): a list gives its elements, a dict
  its keys, a string its characters; anything else raises \<^verbatim>\<open>TypeError\<close>.
\<close>

fun py_iter :: "json \<Rightarrow> error + json list" where
  "py_iter (JArr xs) = Inr xs"
| "py_iter (JObj kvs) = Inr (map (\<lambda>kv. JStr (fst kv)) kvs)"
| "py_iter (JStr s) = Inr (map (\<lambda>c. JStr [c]) s)"
| "py_iter _ = Inl TypeError"

fun set_from :: "scalar list \<Rightarrow> json list \<Rightarrow> error + scalar list" where
  "set_from acc [] = Inr acc"
| "set_from acc (x # xs) =
     (case hashable x of None \<Rightarrow> Inl TypeError | Some s \<Rightarrow> set_from (set_add acc s) xs)"

definition py_set :: "json \<Rightarrow> error + scalar list" where
  "py_set v = (case py_iter v of Inl e \<Rightarrow> Inl e | Inr xs \<Rightarrow> set_from [] xs)"

text \<open>
  \<^verbatim>\<open>a - b\<close> and \<^verbatim>\<open>a & b\<close>. CPython builds the intersection from the members of the
  smaller operand (the right one when the sizes are equal); this decides only whether
  \<^verbatim>\<open>True\<close> or \<^verbatim>\<open>1\<close> is the member kept.
\<close>

definition set_diff :: "scalar list \<Rightarrow> scalar list \<Rightarrow> scalar list" where
  "set_diff a b = filter (\<lambda>x. \<not> set_contains b x) a"

definition set_inter :: "scalar list \<Rightarrow> scalar list \<Rightarrow> scalar list" where
  "set_inter a b =
     (if length b > length a then filter (set_contains b) a else filter (set_contains a) b)"

text \<open>
  \<^verbatim>\<open>sorted(s)\<close> of a set: numbers (booleans among them) sort by value, strings
  lexicographically. \<^verbatim>\<open><\<close> between a number and a string, or with \<^verbatim>\<open>None\<close>, raises
  \<^verbatim>\<open>TypeError\<close>, and a sort of two or more members of different kinds always meets
  such a comparison.
\<close>

fun is_num :: "scalar \<Rightarrow> bool" where
  "is_num (SBool b) = True"
| "is_num (SNum n) = True"
| "is_num _ = False"

fun is_sstr :: "scalar \<Rightarrow> bool" where
  "is_sstr (SStr s) = True"
| "is_sstr _ = False"

fun num_val :: "scalar \<Rightarrow> int" where
  "num_val (SBool b) = (if b then 1 else 0)"
| "num_val (SNum n) = n"
| "num_val _ = 0"

fun str_val :: "scalar \<Rightarrow> string" where
  "str_val (SStr s) = s"
| "str_val _ = []"

definition py_sorted :: "scalar list \<Rightarrow> error + scalar list" where
  "py_sorted xs =
     (if length xs \<le> 1 then Inr xs
      else if list_all is_num xs then Inr (sort_key num_val xs)
      else if list_all is_sstr xs then Inr (sort_key str_val xs)
      else Inl TypeError)"

text \<open>The recurring expressions \<^verbatim>\<open>sorted(set(a) - set(b))\<close> and \<^verbatim>\<open>sorted(set(a) & set(b))\<close>.\<close>

definition sorted_removed :: "json \<Rightarrow> json \<Rightarrow> error + scalar list" where
  "sorted_removed a b =
     andthen (py_set a) (\<lambda>sa. andthen (py_set b) (\<lambda>sb. py_sorted (set_diff sa sb)))"

definition sorted_common :: "json \<Rightarrow> json \<Rightarrow> error + scalar list" where
  "sorted_common a b =
     andthen (py_set a) (\<lambda>sa. andthen (py_set b) (\<lambda>sb. py_sorted (set_inter sa sb)))"

text \<open>
  \<^verbatim>\<open>v[k]\<close>: a dict looks the key up, a list or string takes an integer index (negative
  indices count from the end, a boolean is the integer 0 or 1), anything else is not
  subscriptable.
\<close>

definition py_index :: "'a list \<Rightarrow> int \<Rightarrow> error + 'a" where
  "py_index xs i =
     (if 0 \<le> i \<and> i < int (length xs) then Inr (xs ! nat i)
      else if i < 0 \<and> - i \<le> int (length xs) then Inr (xs ! nat (int (length xs) + i))
      else Inl IndexError)"

fun py_getitem :: "json \<Rightarrow> scalar \<Rightarrow> error + json" where
  "py_getitem (JObj kvs) (SStr k) =
     (case map_of kvs k of None \<Rightarrow> Inl KeyError | Some v \<Rightarrow> Inr v)"
| "py_getitem (JObj kvs) _ = Inl KeyError"
| "py_getitem (JArr xs) (SNum i) = py_index xs i"
| "py_getitem (JArr xs) (SBool b) = py_index xs (if b then 1 else 0)"
| "py_getitem (JArr xs) _ = Inl TypeError"
| "py_getitem (JStr s) (SNum i) = andthen (py_index s i) (\<lambda>c. Inr (JStr [c]))"
| "py_getitem (JStr s) (SBool b) =
     andthen (py_index s (if b then 1 else 0)) (\<lambda>c. Inr (JStr [c]))"
| "py_getitem (JStr s) _ = Inl TypeError"
| "py_getitem _ _ = Inl TypeError"

text \<open>\<^verbatim>\<open>str(x)\<close> of a hashable value, as an f-string formats it.\<close>

fun digits :: "nat \<Rightarrow> string" where
  "digits n =
     (if n < 10 then [''0123456789'' ! n]
      else digits (n div 10) @ [''0123456789'' ! (n mod 10)])"

declare digits.simps [simp del]

fun py_str :: "scalar \<Rightarrow> string" where
  "py_str SNone = ''None''"
| "py_str (SBool b) = (if b then ''True'' else ''False'')"
| "py_str (SNum n) = (if n < 0 then CHR ''-'' # digits (nat (- n)) else digits (nat n))"
| "py_str (SStr s) = s"

section \<open>Findings\<close>

text \<open>
  The script appends one formatted string per breaking change. A finding is kept here
  as the f-string that produced it together with the values it interpolates:
  \<^item> \<open>SchemaTypeChanged ctx b_type c_type\<close>:
    \<^verbatim>\<open>f"{ctx}: schema type changed from {b_type} to {c_type}"\<close>
  \<^item> \<open>EnumValuesRemoved ctx removed\<close>: \<^verbatim>\<open>f"{ctx}: enum values removed: {removed}"\<close>
  \<^item> \<open>RequiredFieldsRemoved ctx removed_required\<close>:
    \<^verbatim>\<open>f"{ctx}: required fields removed: {removed_required}"\<close>
  \<^item> \<open>ResponsePropertiesRemoved ctx removed_props\<close>:
    \<^verbatim>\<open>f"{ctx}: response properties removed: {removed_props}"\<close>
  \<^item> \<open>RemovedPath path\<close>: \<^verbatim>\<open>f"Removed path: {path}"\<close>
  \<^item> \<open>RemovedOperation METHOD path\<close>: \<^verbatim>\<open>f"Removed operation: {method.upper()} {path}"\<close>
  \<^item> \<open>AddedRequiredParameter METHOD path p0 p1\<close>:
    \<^verbatim>\<open>f"Added required parameter on {method.upper()} {path}: {p[0]}:{p[1]}"\<close>
  \<^item> \<open>RequestBodyBecameRequired METHOD path\<close>:
    \<^verbatim>\<open>f"Request body became required: {method.upper()} {path}"\<close>
  \<^item> \<open>RemovedSuccessResponse code METHOD path\<close>:
    \<^verbatim>\<open>f"Removed success response {code} on {method.upper()} {path}"\<close>
  \<^item> \<open>RemovedResponseMediaType mt METHOD path code\<close>:
    \<^verbatim>\<open>f"Removed response media type {mt} for {method.upper()} {path} {code}"\<close>
  The context \<open>ctx\<close> is the string the script builds.
\<close>

datatype finding =
    SchemaTypeChanged string json json
  | EnumValuesRemoved string "scalar list"
  | RequiredFieldsRemoved string "scalar list"
  | ResponsePropertiesRemoved string "scalar list"
  | RemovedPath scalar
  | RemovedOperation string scalar
  | AddedRequiredParameter string scalar scalar scalar
  | RequestBodyBecameRequired string scalar
  | RemovedSuccessResponse string string scalar
  | RemovedResponseMediaType scalar string scalar string

text \<open>
  A \<^verbatim>\<open>for\<close> loop whose body extends the list of findings: the results of the
  iterations in order, up to the first one that raises.
\<close>

fun collect :: "(error + 'a list) list \<Rightarrow> error + 'a list" where
  "collect [] = Inr []"
| "collect (r # rs) = andthen r (\<lambda>xs. andthen (collect rs) (\<lambda>ys. Inr (xs @ ys)))"

text \<open>\<^verbatim>\<open>if removed: out.append(f"...{removed}")\<close>.\<close>

definition report :: "(scalar list \<Rightarrow> finding) \<Rightarrow> scalar list \<Rightarrow> finding list" where
  "report f removed = (if removed \<noteq> [] then [f removed] else [])"

section \<open>Comparing two schemas\<close>

text \<open>
  \<^verbatim>\<open>schema_breaks(base_schema, curr_schema, base_doc, curr_doc, ctx)\<close> calls itself for
  every shared property and for the items of two arrays. The first argument of the
  model is the number of nested calls of \<^verbatim>\<open>schema_breaks\<close> the interpreter still allows
  (Python's recursion limit); a call beyond it raises \<^verbatim>\<open>RecursionError\<close>. Both
  pointers are resolved with a fresh, empty \<open>seen\<close>.
\<close>

fun schema_breaks :: "nat \<Rightarrow> json \<Rightarrow> json \<Rightarrow> json \<Rightarrow> json \<Rightarrow> string \<Rightarrow> error + finding list" where
  "schema_breaks 0 base_schema curr_schema base_doc curr_doc ctx = Inl RecursionError"
| "schema_breaks (Suc depth) base_schema curr_schema base_doc curr_doc ctx =
     (case (resolve_ref (py_or base_schema (JObj [])) base_doc {},
            resolve_ref (py_or curr_schema (JObj [])) curr_doc {}) of
        (JObj b, JObj c) \<Rightarrow>
          (let b_type = dict_get b ''type''; c_type = dict_get c ''type'' in
           if py_truthy b_type \<and> py_truthy c_type \<and> \<not> py_eq b_type c_type
           then Inr [SchemaTypeChanged ctx b_type c_type]
           else
             andthen
               (case (dict_get b ''enum'', dict_get c ''enum'') of
                  (JArr b_enum, JArr c_enum) \<Rightarrow>
                    andthen (sorted_removed (JArr b_enum) (JArr c_enum))
                      (\<lambda>removed. Inr (report (EnumValuesRemoved ctx) removed))
                | _ \<Rightarrow> Inr [])
               (\<lambda>out1.
             andthen
               (if py_eq b_type (JStr ''object'') \<or> map_of b ''properties'' \<noteq> None
                then
                  andthen
                    (sorted_removed (py_or (dict_get b ''required'') (JArr []))
                       (py_or (dict_get c ''required'') (JArr [])))
                    (\<lambda>removed_required.
                  let b_props = py_or (dict_get b ''properties'') (JObj []);
                      c_props = py_or (dict_get c ''properties'') (JObj []) in
                  andthen (sorted_removed b_props c_props) (\<lambda>removed_props.
                  andthen (sorted_common b_props c_props) (\<lambda>common.
                  andthen
                    (collect (map (\<lambda>prop.
                       andthen (py_getitem b_props prop) (\<lambda>bp.
                       andthen (py_getitem c_props prop) (\<lambda>cp.
                         schema_breaks depth bp cp base_doc curr_doc
                           (ctx @ ''.'' @ py_str prop)))) common))
                    (\<lambda>nested.
                  Inr (report (RequiredFieldsRemoved ctx) removed_required
                       @ report (ResponsePropertiesRemoved ctx) removed_props
                       @ nested)))))
                else Inr [])
               (\<lambda>out2.
             andthen
               (if py_eq b_type (JStr ''array'') \<and> py_eq c_type (JStr ''array'')
                then schema_breaks depth (py_or (dict_get b ''items'') (JObj []))
                       (py_or (dict_get c ''items'') (JObj [])) base_doc curr_doc (ctx @ ''[]'')
                else Inr [])
               (\<lambda>out3. Inr (out1 @ out2 @ out3)))))
      | _ \<Rightarrow> Inr [])"

declare schema_breaks.simps [simp del]

section \<open>Comparing two documents\<close>

text \<open>
  \<^verbatim>\<open>v.get(k)\<close> on any value: only a dict has the method (\<^verbatim>\<open>AttributeError\<close> otherwise);
  and \<^verbatim>\<open>v.get(k) or {}\<close>.
\<close>

definition py_get :: "json \<Rightarrow> scalar \<Rightarrow> error + json" where
  "py_get d k =
     (case d of
        JObj kvs \<Rightarrow> (case k of SStr s \<Rightarrow> Inr (dict_get kvs s) | _ \<Rightarrow> Inr JNull)
      | _ \<Rightarrow> Inl AttributeError)"

definition get_or_empty :: "json \<Rightarrow> scalar \<Rightarrow> error + json" where
  "get_or_empty d k = andthen (py_get d k) (\<lambda>v. Inr (py_or v (JObj [])))"

text \<open>
  \<^verbatim>\<open>
  def required_params(op):
      params = op.get("parameters") or []
      out = set()
      for p in params:
          if isinstance(p, dict) and p.get("required") is True:
              out.add((p.get("in"), p.get("name")))
      return out
  \<close>
  The members are pairs; a pair is hashable when both components are.
\<close>

definition pair_contains :: "(scalar \<times> scalar) list \<Rightarrow> scalar \<times> scalar \<Rightarrow> bool" where
  "pair_contains s p =
     ((hash_key (fst p), hash_key (snd p)) \<in> set (map (\<lambda>q. (hash_key (fst q), hash_key (snd q))) s))"

definition pair_add :: "(scalar \<times> scalar) list \<Rightarrow> scalar \<times> scalar \<Rightarrow> (scalar \<times> scalar) list" where
  "pair_add s p = (if pair_contains s p then s else s @ [p])"

fun params_from :: "(scalar \<times> scalar) list \<Rightarrow> json list \<Rightarrow> error + (scalar \<times> scalar) list" where
  "params_from out [] = Inr out"
| "params_from out (p # ps) =
     (case p of
        JObj kvs \<Rightarrow>
          (if dict_get kvs ''required'' = JBool True
           then (case (hashable (dict_get kvs ''in''), hashable (dict_get kvs ''name'')) of
                   (Some i, Some n) \<Rightarrow> params_from (pair_add out (i, n)) ps
                 | _ \<Rightarrow> Inl TypeError)
           else params_from out ps)
      | _ \<Rightarrow> params_from out ps)"

definition required_params :: "json \<Rightarrow> error + (scalar \<times> scalar) list" where
  "required_params op =
     andthen (py_get op (SStr ''parameters'')) (\<lambda>v.
     andthen (py_iter (py_or v (JArr []))) (\<lambda>params. params_from [] params))"

text \<open>
  \<^verbatim>\<open>sorted\<close> of a set of pairs. Two pairs are compared at their first unequal
  component, and that comparison raises \<^verbatim>\<open>TypeError\<close> unless both values are numbers or
  both are strings.
\<close>

fun lt_ok :: "scalar \<Rightarrow> scalar \<Rightarrow> bool" where
  "lt_ok x y = ((is_num x \<and> is_num y) \<or> (is_sstr x \<and> is_sstr y))"

definition pair_lt_ok :: "scalar \<times> scalar \<Rightarrow> scalar \<times> scalar \<Rightarrow> bool" where
  "pair_lt_ok p q =
     (if hash_key (fst p) \<noteq> hash_key (fst q) then lt_ok (fst p) (fst q)
      else if hash_key (snd p) \<noteq> hash_key (snd q) then lt_ok (snd p) (snd q)
      else True)"

fun sort_rank :: "scalar \<Rightarrow> nat \<times> int \<times> string" where
  "sort_rank SNone = (0, 0, [])"
| "sort_rank (SBool b) = (1, if b then 1 else 0, [])"
| "sort_rank (SNum n) = (1, n, [])"
| "sort_rank (SStr s) = (2, 0, s)"

definition sorted_pairs :: "(scalar \<times> scalar) list \<Rightarrow> error + (scalar \<times> scalar) list" where
  "sorted_pairs ps =
     (if list_all (\<lambda>p. list_all (pair_lt_ok p) ps) ps
      then Inr (sort_key (\<lambda>p. (sort_rank (fst p), sort_rank (snd p))) ps)
      else Inl TypeError)"

text \<open>
  \<^verbatim>\<open>k.lower()\<close> and \<^verbatim>\<open>method.upper()\<close> on the ASCII letters (no other character is
  mapped to a letter of a method name).
\<close>

definition upper_char :: "char \<Rightarrow> char" where
  "upper_char ch =
     (case map_of (zip ''abcdefghijklmnopqrstuvwxyz'' ''ABCDEFGHIJKLMNOPQRSTUVWXYZ'') ch of
        None \<Rightarrow> ch | Some u \<Rightarrow> u)"

definition lower_char :: "char \<Rightarrow> char" where
  "lower_char ch =
     (case map_of (zip ''ABCDEFGHIJKLMNOPQRSTUVWXYZ'' ''abcdefghijklmnopqrstuvwxyz'') ch of
        None \<Rightarrow> ch | Some l \<Rightarrow> l)"

definition upper :: "string \<Rightarrow> string" where
  "upper s = map upper_char s"

definition lower :: "string \<Rightarrow> string" where
  "lower s = map lower_char s"

definition http_methods :: "string list" where
  "http_methods = [''get'', ''post'', ''put'', ''patch'', ''delete'', ''options'', ''head'', ''trace'']"

text \<open>
  The body of the loop over the methods shared by both path items (lines 121 to 164 of
  the script), in its parts:
  \<^verbatim>\<open>{code for code in (op.get("responses") or {}).keys() if str(code).startswith("2")}\<close>,
  \<^verbatim>\<open>((op.get("responses") or {}).get(code) or {}).get("content") or {}\<close>,
  \<^verbatim>\<open>(content.get(mt) or {}).get("schema") or {}\<close>, the loop body for one shared success
  code, and the whole body for one shared method.
\<close>

definition success_codes :: "json \<Rightarrow> error + scalar list" where
  "success_codes op =
     andthen (get_or_empty op (SStr ''responses'')) (\<lambda>responses.
       case responses of
         JObj kvs \<Rightarrow> Inr (foldl set_add [] (map SStr (filter (\<lambda>code. startswith code ''2'') (map fst kvs))))
       | _ \<Rightarrow> Inl AttributeError)"

definition response_content :: "json \<Rightarrow> scalar \<Rightarrow> error + json" where
  "response_content op code =
     andthen (get_or_empty op (SStr ''responses'')) (\<lambda>responses.
     andthen (get_or_empty responses code) (\<lambda>resp.
     get_or_empty resp (SStr ''content'')))"

definition media_schema :: "json \<Rightarrow> scalar \<Rightarrow> error + json" where
  "media_schema content mt =
     andthen (get_or_empty content mt) (\<lambda>media. get_or_empty media (SStr ''schema''))"

definition response_breaks ::
  "nat \<Rightarrow> json \<Rightarrow> json \<Rightarrow> string \<Rightarrow> scalar \<Rightarrow> json \<Rightarrow> json \<Rightarrow> scalar \<Rightarrow> error + finding list" where
  "response_breaks limit base current method path b c code =
     andthen (response_content b code) (\<lambda>b_content.
     andthen (response_content c code) (\<lambda>c_content.
     andthen (sorted_removed b_content c_content) (\<lambda>removed_media.
     andthen (sorted_common b_content c_content) (\<lambda>common.
     andthen
       (collect (map (\<lambda>mt.
          andthen (media_schema b_content mt) (\<lambda>b_schema.
          andthen (media_schema c_content mt) (\<lambda>c_schema.
            schema_breaks limit b_schema c_schema base current
              (method @ '' '' @ py_str path @ '' '' @ py_str code @ '' ['' @ py_str mt @ '']'')))) common))
       (\<lambda>nested.
     Inr (map (\<lambda>mt. RemovedResponseMediaType mt method path (py_str code)) removed_media @ nested))))))"

definition operation_breaks ::
  "nat \<Rightarrow> json \<Rightarrow> json \<Rightarrow> string \<Rightarrow> scalar \<Rightarrow> json \<Rightarrow> json \<Rightarrow> error + finding list" where
  "operation_breaks limit base current method path b c =
     andthen (required_params c) (\<lambda>c_params.
     andthen (required_params b) (\<lambda>b_params.
     andthen (sorted_pairs (filter (\<lambda>p. \<not> pair_contains b_params p) c_params)) (\<lambda>new_required.
     andthen (get_or_empty b (SStr ''requestBody'')) (\<lambda>b_body.
     andthen (py_get b_body (SStr ''required'')) (\<lambda>b_req_required.
     andthen (get_or_empty c (SStr ''requestBody'')) (\<lambda>c_body.
     andthen (py_get c_body (SStr ''required'')) (\<lambda>c_req_required.
     andthen (success_codes b) (\<lambda>b_success.
     andthen (success_codes c) (\<lambda>c_success.
     andthen (py_sorted (set_diff b_success c_success)) (\<lambda>removed_success.
     andthen (py_sorted (set_inter b_success c_success)) (\<lambda>common.
     andthen (collect (map (response_breaks limit base current method path b c) common)) (\<lambda>nested.
     Inr (map (\<lambda>p. AddedRequiredParameter method path (fst p) (snd p)) new_required
          @ (if \<not> py_truthy b_req_required \<and> py_truthy c_req_required
             then [RequestBodyBecameRequired method path] else [])
          @ map (\<lambda>code. RemovedSuccessResponse (py_str code) method path) removed_success
          @ nested)))))))))))))"

text \<open>
  \<^verbatim>\<open>{k: v for k, v in paths[path].items() if k.lower() in http_methods}\<close>, and the body
  of the loop over the paths shared by both documents (lines 114 to 164).
\<close>

definition path_ops :: "json \<Rightarrow> scalar \<Rightarrow> error + json" where
  "path_ops paths path =
     andthen (py_getitem paths path) (\<lambda>item.
       case item of
         JObj kvs \<Rightarrow> Inr (JObj (filter (\<lambda>kv. lower (fst kv) \<in> set http_methods) (dedup kvs)))
       | _ \<Rightarrow> Inl AttributeError)"

definition path_breaks :: "nat \<Rightarrow> json \<Rightarrow> json \<Rightarrow> json \<Rightarrow> json \<Rightarrow> scalar \<Rightarrow> error + finding list" where
  "path_breaks limit base current base_paths curr_paths path =
     andthen (path_ops base_paths path) (\<lambda>b_ops.
     andthen (path_ops curr_paths path) (\<lambda>c_ops.
     andthen (sorted_removed b_ops c_ops) (\<lambda>removed_ops.
     andthen (sorted_common b_ops c_ops) (\<lambda>common.
     andthen
       (collect (map (\<lambda>method.
          andthen (py_getitem b_ops method) (\<lambda>b.
          andthen (py_getitem c_ops method) (\<lambda>c.
            operation_breaks limit base current (upper (py_str method)) path b c))) common))
       (\<lambda>nested.
     Inr (map (\<lambda>method. RemovedOperation (upper (py_str method)) path) removed_ops @ nested))))))"

text \<open>
  \<^verbatim>\<open>doc.get("paths", {})\<close>, and the comparison \<^verbatim>\<open>main\<close> runs between loading the two
  documents and printing (lines 106 to 164): the list \<^verbatim>\<open>breaking\<close>.
\<close>

definition get_paths :: "json \<Rightarrow> error + json" where
  "get_paths doc =
     (case doc of
        JObj kvs \<Rightarrow> (case map_of kvs ''paths'' of None \<Rightarrow> Inr (JObj []) | Some v \<Rightarrow> Inr v)
      | _ \<Rightarrow> Inl AttributeError)"

definition compare_documents :: "nat \<Rightarrow> json \<Rightarrow> json \<Rightarrow> error + finding list" where
  "compare_documents limit base current =
     andthen (get_paths base) (\<lambda>base_paths.
     andthen (get_paths current) (\<lambda>curr_paths.
     andthen (sorted_removed base_paths curr_paths) (\<lambda>removed_paths.
     andthen (sorted_common base_paths curr_paths) (\<lambda>common.
     andthen (collect (map (path_breaks limit base current base_paths curr_paths) common)) (\<lambda>nested.
     Inr (map RemovedPath removed_paths @ nested))))))"

section \<open>The command line\<close>

text \<open>
  A run of \<^verbatim>\<open>main\<close>: the lines printed to standard output and to standard error, and
  how it ends (the value returned, which is the exit status, or an uncaught exception).
  \<open>Item f\<close> is the line \<^verbatim>\<open>f" - {item}"\<close>. \<open>argv\<close> is \<^verbatim>\<open>sys.argv\<close>, \<open>load\<close> what
  \<^verbatim>\<open>load(path)\<close> gives for each path, \<open>limit\<close> the recursion limit left to
  \<^verbatim>\<open>schema_breaks\<close>.
  The script itself never writes to standard error; the traceback the interpreter
  prints for an uncaught exception is part of the outcome \<open>Raised\<close>, not a line of
  the run.
\<close>

datatype line = Text string | Item finding

datatype outcome = Returned int | Raised error

record run =
  stdout :: "line list"
  stderr :: "line list"
  outcome :: outcome

definition usage :: string where
  "usage = ''Usage: compare-openapi-breaking.py <base-spec.json> <current-spec.json>''"

definition main :: "nat \<Rightarrow> string list \<Rightarrow> (string \<Rightarrow> error + json) \<Rightarrow> run" where
  "main limit argv load =
     (if length argv \<noteq> 3
      then \<lparr>stdout = [Text usage], stderr = [], outcome = Returned 2\<rparr>
      else
        (case andthen (load (argv ! 1)) (\<lambda>base.
              andthen (load (argv ! 2)) (\<lambda>current. compare_documents limit base current)) of
           Inl e \<Rightarrow> \<lparr>stdout = [], stderr = [], outcome = Raised e\<rparr>
         | Inr breaking \<Rightarrow>
             (if breaking \<noteq> []
              then \<lparr>stdout = Text ''Breaking OpenAPI changes detected:'' # map Item breaking,
                    stderr = [], outcome = Returned 1\<rparr>
              else \<lparr>stdout = [Text ''No breaking OpenAPI changes detected.''],
                    stderr = [], outcome = Returned 0\<rparr>)))"

section \<open>Notions used in the statements\<close>

text \<open>The context of a finding that \<open>schema_breaks\<close> reports.\<close>

fun finding_ctx :: "finding \<Rightarrow> string option" where
  "finding_ctx (SchemaTypeChanged ctx b_type c_type) = Some ctx"
| "finding_ctx (EnumValuesRemoved ctx removed) = Some ctx"
| "finding_ctx (RequiredFieldsRemoved ctx removed) = Some ctx"
| "finding_ctx (ResponsePropertiesRemoved ctx removed) = Some ctx"
| "finding_ctx _ = None"

text \<open>
  A resolved schema all of whose optional fields besides \<^verbatim>\<open>type\<close> are absent or hold a
  value that is false for Python (\<^verbatim>\<open>None\<close>, \<^verbatim>\<open>False\<close>, \<^verbatim>\<open>0\<close>, \<^verbatim>\<open>""\<close>, \<^verbatim>\<open>[]\<close>, \<^verbatim>\<open>{}\<close>); a
  value that is not a dict counts as such.
\<close>

definition defaults_only :: "json \<Rightarrow> bool" where
  "defaults_only v =
     (case v of
        JObj kvs \<Rightarrow>
          \<not> py_truthy (dict_get kvs ''enum'') \<and> \<not> py_truthy (dict_get kvs ''required'')
          \<and> \<not> py_truthy (dict_get kvs ''properties'') \<and> \<not> py_truthy (dict_get kvs ''items'')
      | _ \<Rightarrow> True)"

text \<open>
  The shapes of the optional fields on which the script's defaults and guards are
  enough. A collection is in order when \<^verbatim>\<open>set(...)\<close> accepts it and its members are of one
  kind, all numbers or all strings, so that any part of it can be sorted. The fields of a
  schema are in order when \<^verbatim>\<open>required\<close> (or its default \<^verbatim>\<open>[]\<close>) is such a collection, \<^verbatim>\<open>enum\<close>
  is such a collection if it is a list, and \<^verbatim>\<open>properties\<close> (or its default \<^verbatim>\<open>{}\<close>) is a
  dict; \<^verbatim>\<open>type\<close>, \<^verbatim>\<open>items\<close> and an \<^verbatim>\<open>enum\<close> that is no list may hold anything.
\<close>

definition same_kind :: "scalar list \<Rightarrow> bool" where
  "same_kind s = (list_all is_num s \<or> list_all is_sstr s)"

definition collection_ok :: "json \<Rightarrow> bool" where
  "collection_ok v = (case py_set v of Inl e \<Rightarrow> False | Inr s \<Rightarrow> same_kind s)"

definition fields_ok :: "(string \<times> json) list \<Rightarrow> bool" where
  "fields_ok kvs =
     (collection_ok (py_or (dict_get kvs ''required'') (JArr []))
      \<and> (case dict_get kvs ''enum'' of JArr members \<Rightarrow> collection_ok (JArr members) | _ \<Rightarrow> True)
      \<and> (case py_or (dict_get kvs ''properties'') (JObj []) of JObj props \<Rightarrow> True | _ \<Rightarrow> False))"

text \<open>
  A schema is well shaped to depth \<open>n\<close> in a document when it unfolds, through its
  pointer, its properties and (for an array) its items, in at most \<open>n\<close> nested schemas,
  each with its fields in order. A value that is no dict is a leaf.
\<close>

fun well_shaped :: "nat \<Rightarrow> json \<Rightarrow> json \<Rightarrow> bool" where
  "well_shaped 0 schema doc = False"
| "well_shaped (Suc depth) schema doc =
     (case resolve_ref (py_or schema (JObj [])) doc {} of
        JObj kvs \<Rightarrow>
          fields_ok kvs
          \<and> (case py_or (dict_get kvs ''properties'') (JObj []) of
                JObj props \<Rightarrow> list_all (\<lambda>kv. well_shaped depth (snd kv) doc) props
              | _ \<Rightarrow> False)
          \<and> (if py_eq (dict_get kvs ''type'') (JStr ''array'')
               then well_shaped depth (py_or (dict_get kvs ''items'') (JObj [])) doc
               else True)
      | _ \<Rightarrow> True)"

text \<open>
  The three parts of the body of \<open>schema_breaks\<close> that follow the type check, named
  for the proofs: the enum step, the object step and the array step.
\<close>

definition enum_part :: "(string \<times> json) list \<Rightarrow> (string \<times> json) list \<Rightarrow> string \<Rightarrow> error + finding list" where
  "enum_part b c ctx =
     (case (dict_get b ''enum'', dict_get c ''enum'') of
        (JArr b_enum, JArr c_enum) \<Rightarrow>
          andthen (sorted_removed (JArr b_enum) (JArr c_enum))
            (\<lambda>removed. Inr (report (EnumValuesRemoved ctx) removed))
      | _ \<Rightarrow> Inr [])"

definition props_part ::
  "nat \<Rightarrow> json \<Rightarrow> json \<Rightarrow> json \<Rightarrow> json \<Rightarrow> string \<Rightarrow> scalar \<Rightarrow> error + finding list" where
  "props_part depth b_props c_props base_doc curr_doc ctx prop =
     andthen (py_getitem b_props prop) (\<lambda>bp.
     andthen (py_getitem c_props prop) (\<lambda>cp.
       schema_breaks depth bp cp base_doc curr_doc (ctx @ ''.'' @ py_str prop)))"

definition object_part ::
  "nat \<Rightarrow> (string \<times> json) list \<Rightarrow> (string \<times> json) list \<Rightarrow> json \<Rightarrow> json \<Rightarrow> string \<Rightarrow> error + finding list" where
  "object_part depth b c base_doc curr_doc ctx =
     (if py_eq (dict_get b ''type'') (JStr ''object'') \<or> map_of b ''properties'' \<noteq> None
      then
        andthen
          (sorted_removed (py_or (dict_get b ''required'') (JArr []))
             (py_or (dict_get c ''required'') (JArr [])))
          (\<lambda>removed_required.
        andthen (sorted_removed (py_or (dict_get b ''properties'') (JObj []))
                   (py_or (dict_get c ''properties'') (JObj []))) (\<lambda>removed_props.
        andthen (sorted_common (py_or (dict_get b ''properties'') (JObj []))
                   (py_or (dict_get c ''properties'') (JObj []))) (\<lambda>common.
        andthen
          (collect (map (props_part depth (py_or (dict_get b ''properties'') (JObj []))
                           (py_or (dict_get c ''properties'') (JObj [])) base_doc curr_doc ctx) common))
          (\<lambda>nested.
        Inr (report (RequiredFieldsRemoved ctx) removed_required
             @ report (ResponsePropertiesRemoved ctx) removed_props
             @ nested)))))
      else Inr [])"

definition array_part ::
  "nat \<Rightarrow> (string \<times> json) list \<Rightarrow> (string \<times> json) list \<Rightarrow> json \<Rightarrow> json \<Rightarrow> string \<Rightarrow> error + finding list" where
  "array_part depth b c base_doc curr_doc ctx =
     (if py_eq (dict_get b ''type'') (JStr ''array'') \<and> py_eq (dict_get c ''type'') (JStr ''array'')
      then schema_breaks depth (py_or (dict_get b ''items'') (JObj []))
             (py_or (dict_get c ''items'') (JObj [])) base_doc curr_doc (ctx @ ''[]'')
      else Inr [])"


section \<open>A schema that refers to itself\<close>

text \<open>
  A linked-list node whose \<^verbatim>\<open>next\<close> property points back at the node, as
  \<^verbatim>\<open>#/components/schemas/Node\<close> of a document, and a response schema that refers to it.
\<close>

definition node_schema :: json where
  "node_schema =
     JObj [(''type'', JStr ''object''),
           (''properties'', JObj [(''next'', JObj [(''$ref'', JStr ''#/components/schemas/Node'')])])]"

definition node_doc :: json where
  "node_doc = JObj [(''components'', JObj [(''schemas'', JObj [(''Node'', node_schema)])])]"

definition node_ref :: json where
  "node_ref = JObj [(''$ref'', JStr ''#/components/schemas/Node'')]"

text \<open>A tree whose items are trees again, as \<^verbatim>\<open>#/definitions/Tree\<close>.\<close>

definition tree_schema :: json where
  "tree_schema =
     JObj [(''type'', JStr ''array''), (''items'', JObj [(''$ref'', JStr ''#/definitions/Tree'')])]"

definition tree_doc :: json where
  "tree_doc = JObj [(''definitions'', JObj [(''Tree'', tree_schema)])]"


section \<open>Two versions of a small contract\<close>

text \<open>
  The base document offers \<^verbatim>\<open>GET /pets\<close> (keyed \<^verbatim>\<open>"GET"\<close>), \<^verbatim>\<open>post /pets\<close> and
  \<^verbatim>\<open>get /owners\<close>; the current document drops the path \<^verbatim>\<open>/owners\<close> and keys the first
  operation \<^verbatim>\<open>"get"\<close>.
\<close>

definition pet_list_op :: json where
  "pet_list_op =
     JObj [(''responses'', JObj [(''200'', JObj [(''content'', JObj [(''application/json'',
       JObj [(''schema'', JObj [(''type'', JStr ''array''),
                                (''items'', JObj [(''type'', JStr ''string'')])])])])])])]"

definition pets_base :: json where
  "pets_base =
     JObj [(''paths'', JObj [(''/pets'', JObj [(''GET'', pet_list_op), (''post'', pet_list_op)]),
                             (''/owners'', JObj [(''get'', pet_list_op)])])]"

definition pets_current :: json where
  "pets_current =
     JObj [(''paths'', JObj [(''/pets'', JObj [(''get'', pet_list_op), (''post'', pet_list_op)])])]"


section \<open>A partial schema against a fuller one\<close>

text \<open>
  The base schema requires and declares \<^verbatim>\<open>id\<close> and declares \<^verbatim>\<open>tags\<close>; two of its fields
  are malformed (\<^verbatim>\<open>"enum": "abc"\<close>, \<^verbatim>\<open>"items": 5\<close>). The current schema has
  \<^verbatim>\<open>"required": null\<close> and declares only \<^verbatim>\<open>tags\<close>, without items.
\<close>

definition partial_base :: json where
  "partial_base =
     JObj [(''type'', JStr ''object''), (''required'', JArr [JStr ''id'']),
           (''properties'', JObj [(''id'', JObj [(''type'', JStr ''string''), (''enum'', JStr ''abc'')]),
                                  (''tags'', JObj [(''type'', JStr ''array''), (''items'', JNum 5)])])]"

definition partial_current :: json where
  "partial_current =
     JObj [(''type'', JStr ''object''), (''required'', JNull),
           (''properties'', JObj [(''tags'', JObj [(''type'', JStr ''array'')])])]"

section \<open>Contracts with the self-referential node\<close>

text \<open>
  An operation whose \<^verbatim>\<open>200\<close> response is the self-referential node, and two pairs of
  documents that carry it. In the first pair the base has a path \<^verbatim>\<open>/gone\<close> that the current
  document lacks, and both share \<^verbatim>\<open>/nodes\<close>. In the second pair the shared path \<^verbatim>\<open>/nodes\<close>
  carries an operation keyed \<^verbatim>\<open>"GET"\<close> in the base and \<^verbatim>\<open>"get"\<close> in the current document,
  beside a shared \<^verbatim>\<open>post\<close>.
\<close>

definition node_op :: json where
  "node_op =
     JObj [(''responses'', JObj [(''200'', JObj [(''content'', JObj [(''application/json'',
       JObj [(''schema'', JObj [(''$ref'', JStr ''#/components/schemas/Node'')])])])])])]"

definition gone_base :: json where
  "gone_base =
     JObj [(''paths'', JObj [(''/gone'', JObj [(''get'', pet_list_op)]),
                             (''/nodes'', JObj [(''get'', node_op)])]),
           (''components'', JObj [(''schemas'', JObj [(''Node'', node_schema)])])]"

definition gone_current :: json where
  "gone_current =
     JObj [(''paths'', JObj [(''/nodes'', JObj [(''get'', node_op)])]),
           (''components'', JObj [(''schemas'', JObj [(''Node'', node_schema)])])]"

definition case_base :: json where
  "case_base =
     JObj [(''paths'', JObj [(''/nodes'', JObj [(''GET'', pet_list_op), (''post'', node_op)])]),
           (''components'', JObj [(''schemas'', JObj [(''Node'', node_schema)])])]"

definition case_current :: json where
  "case_current =
     JObj [(''paths'', JObj [(''/nodes'', JObj [(''get'', pet_list_op), (''post'', node_op)])]),
           (''components'', JObj [(''schemas'', JObj [(''Node'', node_schema)])])]"


section \<open>Basic facts\<close>

lemma py_eq_refl: "py_eq x x"
  by (simp add: py_eq_def)

lemma py_eq_JStr: "py_eq (JStr s) (JStr t) = (s = t)"
  by (simp add: py_eq_def)

lemma py_eq_JStr_right: "py_eq v (JStr t) = (v = JStr t)"
  by (cases v) (auto simp: py_eq_def)

lemma andthen_Inr: "andthen (Inr x) f = f x"
  by (simp add: andthen_def)

lemma andthen_Inl: "andthen (Inl e) f = Inl e"
  by (simp add: andthen_def)

lemma andthen_eq_Inr:
  "(andthen m f = Inr y) = (\<exists>x. m = Inr x \<and> f x = Inr y)"
  by (cases m) (auto simp: andthen_def)


section \<open>Sets of dict keys and loops over them\<close>

lemma hash_key_sstr: "is_sstr x \<Longrightarrow> hash_key x = x"
  by (cases x) simp_all

lemma hash_key_image_sstr: "list_all is_sstr s \<Longrightarrow> map hash_key s = s"
  by (induction s) (simp_all add: hash_key_sstr)

lemma set_contains_sstr:
  "list_all is_sstr s \<Longrightarrow> is_sstr x \<Longrightarrow> set_contains s x = (x \<in> set s)"
  by (simp add: set_contains_def hash_key_image_sstr hash_key_sstr)

lemma set_add_sstr:
  assumes "list_all is_sstr s" "distinct s"
  shows "list_all is_sstr (set_add s (SStr k)) \<and> distinct (set_add s (SStr k))
       \<and> set (set_add s (SStr k)) = insert (SStr k) (set s)"
  using assms by (auto simp: set_add_def set_contains_sstr)

lemma set_from_keys:
  assumes "list_all is_sstr acc" "distinct acc"
  shows "\<exists>r. set_from acc (map (\<lambda>kv. JStr (fst kv)) kvs) = Inr r \<and> list_all is_sstr r
           \<and> distinct r \<and> set r = set acc \<union> SStr ` fst ` set kvs"
  using assms
proof (induction kvs arbitrary: acc)
  case Nil
  then show ?case by simp
next
  case (Cons kv kvs)
  from set_add_sstr [OF Cons.prems, of "fst kv"]
  have a: "list_all is_sstr (set_add acc (SStr (fst kv)))" "distinct (set_add acc (SStr (fst kv)))"
    and s: "set (set_add acc (SStr (fst kv))) = insert (SStr (fst kv)) (set acc)"
    by simp_all
  from Cons.IH [OF a] s show ?case by auto
qed

lemma py_set_dict:
  "\<exists>r. py_set (JObj kvs) = Inr r \<and> list_all is_sstr r \<and> distinct r
       \<and> set r = SStr ` fst ` set kvs"
  using set_from_keys [of "[]" kvs] by (simp add: py_set_def)

lemma py_sorted_set: "py_sorted s = Inr r \<Longrightarrow> set r = set s \<and> distinct r = distinct s"
  by (auto simp: py_sorted_def split: if_splits)

lemma py_sorted_sstr: "list_all is_sstr s \<Longrightarrow> \<exists>r. py_sorted s = Inr r"
  by (simp add: py_sorted_def)

lemma set_diff_sstr:
  "list_all is_sstr a \<Longrightarrow> list_all is_sstr b \<Longrightarrow>
   set (set_diff a b) = set a - set b \<and> list_all is_sstr (set_diff a b)"
  by (induction a) (auto simp: set_diff_def set_contains_sstr)

lemma set_inter_sstr:
  "list_all is_sstr a \<Longrightarrow> list_all is_sstr b \<Longrightarrow>
   set (set_inter a b) = set a \<inter> set b \<and> list_all is_sstr (set_inter a b)"
  by (auto simp: set_inter_def set_contains_sstr list_all_iff)

lemma distinct_set_diff: "distinct a \<Longrightarrow> distinct (set_diff a b)"
  by (simp add: set_diff_def)

lemma distinct_set_inter: "distinct a \<Longrightarrow> distinct b \<Longrightarrow> distinct (set_inter a b)"
  by (simp add: set_inter_def)

lemma sorted_removed_dict:
  "\<exists>r. sorted_removed (JObj a) (JObj b) = Inr r \<and> distinct r
       \<and> set r = SStr ` (fst ` set a - fst ` set b)"
proof -
  obtain sa where sa: "py_set (JObj a) = Inr sa" "list_all is_sstr sa" "distinct sa"
    "set sa = SStr ` fst ` set a"
    using py_set_dict [of a] by blast
  obtain sb where sb: "py_set (JObj b) = Inr sb" "list_all is_sstr sb" "distinct sb"
    "set sb = SStr ` fst ` set b"
    using py_set_dict [of b] by blast
  from set_diff_sstr [OF sa(2) sb(2)]
  have d: "set (set_diff sa sb) = set sa - set sb" "list_all is_sstr (set_diff sa sb)"
    by simp_all
  obtain r where r: "py_sorted (set_diff sa sb) = Inr r"
    using py_sorted_sstr [OF d(2)] by blast
  have "set r = set sa - set sb" "distinct r"
    using py_sorted_set [OF r] d(1) distinct_set_diff [OF sa(3), of sb] by simp_all
  moreover have "set sa - set sb = SStr ` (fst ` set a - fst ` set b)"
    using sa(4) sb(4) by (simp add: image_set_diff inj_def)
  ultimately show ?thesis
    using sa(1) sb(1) r by (simp add: sorted_removed_def andthen_def)
qed

lemma sorted_common_dict:
  "\<exists>r. sorted_common (JObj a) (JObj b) = Inr r \<and> distinct r
       \<and> set r = SStr ` (fst ` set a \<inter> fst ` set b)"
proof -
  obtain sa where sa: "py_set (JObj a) = Inr sa" "list_all is_sstr sa" "distinct sa"
    "set sa = SStr ` fst ` set a"
    using py_set_dict [of a] by blast
  obtain sb where sb: "py_set (JObj b) = Inr sb" "list_all is_sstr sb" "distinct sb"
    "set sb = SStr ` fst ` set b"
    using py_set_dict [of b] by blast
  from set_inter_sstr [OF sa(2) sb(2)]
  have d: "set (set_inter sa sb) = set sa \<inter> set sb" "list_all is_sstr (set_inter sa sb)"
    by simp_all
  obtain r where r: "py_sorted (set_inter sa sb) = Inr r"
    using py_sorted_sstr [OF d(2)] by blast
  have "set r = set sa \<inter> set sb" "distinct r"
    using py_sorted_set [OF r] d(1) distinct_set_inter [OF sa(3) sb(3)] by simp_all
  moreover have "set sa \<inter> set sb = SStr ` (fst ` set a \<inter> fst ` set b)"
    using sa(4) sb(4) by (simp add: image_Int inj_def)
  ultimately show ?thesis
    using sa(1) sb(1) r by (simp add: sorted_common_def andthen_def)
qed

lemma collect_Inr_all:
  "collect rs = Inr out \<Longrightarrow> r \<in> set rs \<Longrightarrow> \<exists>xs. r = Inr xs \<and> set xs \<subseteq> set out"
proof (induction rs arbitrary: out)
  case Nil
  then show ?case by simp
next
  case (Cons a rs)
  from Cons.prems(1) obtain xs ys where a: "a = Inr xs" and c: "collect rs = Inr ys"
    and o: "out = xs @ ys"
    by (auto simp: andthen_eq_Inr)
  show ?case
  proof (cases "r = a")
    case True
    with a o show ?thesis by auto
  next
    case False
    with Cons.prems(2) have "r \<in> set rs" by simp
    from Cons.IH [OF c this] o show ?thesis by auto
  qed
qed

lemma collect_Inr_origin:
  "collect rs = Inr out \<Longrightarrow> f \<in> set out \<Longrightarrow> \<exists>xs. Inr xs \<in> set rs \<and> f \<in> set xs"
proof (induction rs arbitrary: out)
  case Nil
  then show ?case by simp
next
  case (Cons a rs)
  from Cons.prems(1) obtain xs ys where a: "a = Inr xs" and c: "collect rs = Inr ys"
    and o: "out = xs @ ys"
    by (auto simp: andthen_eq_Inr)
  from Cons.prems(2) o consider "f \<in> set xs" | "f \<in> set ys" by auto
  then show ?case
  proof cases
    case 1
    with a show ?thesis by auto
  next
    case 2
    from Cons.IH [OF c 2] show ?thesis by auto
  qed
qed

section \<open>The structure of a comparison\<close>

lemma props_part_fun:
  "props_part depth b_props c_props base_doc curr_doc ctx =
     (\<lambda>prop. andthen (py_getitem b_props prop) (\<lambda>bp.
              andthen (py_getitem c_props prop) (\<lambda>cp.
                schema_breaks depth bp cp base_doc curr_doc (ctx @ ''.'' @ py_str prop))))"
  by (rule ext) (simp add: props_part_def)

lemma schema_breaks_Suc:
  "schema_breaks (Suc depth) base_schema curr_schema base_doc curr_doc ctx =
     (case resolve_ref (py_or base_schema (JObj [])) base_doc {} of
        JObj b \<Rightarrow>
          (case resolve_ref (py_or curr_schema (JObj [])) curr_doc {} of
             JObj c \<Rightarrow>
               (if py_truthy (dict_get b ''type'') \<and> py_truthy (dict_get c ''type'')
                   \<and> \<not> py_eq (dict_get b ''type'') (dict_get c ''type'')
                then Inr [SchemaTypeChanged ctx (dict_get b ''type'') (dict_get c ''type'')]
                else andthen (enum_part b c ctx) (\<lambda>out1.
                     andthen (object_part depth b c base_doc curr_doc ctx) (\<lambda>out2.
                     andthen (array_part depth b c base_doc curr_doc ctx) (\<lambda>out3.
                       Inr (out1 @ out2 @ out3)))))
           | _ \<Rightarrow> Inr [])
      | _ \<Rightarrow> Inr [])"
  by (simp add: schema_breaks.simps enum_part_def object_part_def array_part_def props_part_fun
      Let_def split: json.splits)

lemma startswith_refl: "startswith c c"
  by (simp add: startswith_def)

lemma startswith_append: "startswith c (ctx @ s) \<Longrightarrow> startswith c ctx"
proof -
  assume "startswith c (ctx @ s)"
  then have "take (length ctx + length s) c = ctx @ s" by (simp add: startswith_def)
  then have "take (length ctx) (take (length ctx + length s) c) = take (length ctx) (ctx @ s)"
    by simp
  then show ?thesis by (simp add: startswith_def min_def)
qed

lemma startswith_longer: "startswith c (ctx @ s) \<Longrightarrow> s \<noteq> [] \<Longrightarrow> c \<noteq> ctx"
proof
  assume a: "startswith c (ctx @ s)" and n: "s \<noteq> []" and e: "c = ctx"
  from a have "length (take (length ctx + length s) c) = length (ctx @ s)"
    by (simp add: startswith_def)
  with e n show False by simp
qed

lemma collect_map_origin:
  assumes "collect (map g xs) = Inr out" and "f \<in> set out"
  shows "\<exists>x ys. x \<in> set xs \<and> g x = Inr ys \<and> f \<in> set ys"
proof -
  from collect_Inr_origin [OF assms] obtain ys where "Inr ys \<in> set (map g xs)" and "f \<in> set ys"
    by blast
  then obtain x where "x \<in> set xs" and "g x = Inr ys" by (auto dest: sym)
  with \<open>f \<in> set ys\<close> show ?thesis by blast
qed

lemma collect_map_all:
  assumes "collect (map g xs) = Inr out" and "x \<in> set xs"
  shows "\<exists>ys. g x = Inr ys \<and> set ys \<subseteq> set out"
proof -
  from assms(2) have "g x \<in> set (map g xs)" by simp
  from collect_Inr_all [OF assms(1) this] show ?thesis .
qed

lemma enum_part_findings:
  "enum_part b c ctx = Inr out \<Longrightarrow> f \<in> set out \<Longrightarrow> \<exists>removed. f = EnumValuesRemoved ctx removed"
  by (auto simp: enum_part_def andthen_eq_Inr report_def split: json.splits if_splits)

lemma object_part_Inr:
  assumes "object_part depth b c base_doc curr_doc ctx = Inr out"
    and "py_eq (dict_get b ''type'') (JStr ''object'') \<or> map_of b ''properties'' \<noteq> None"
  shows "\<exists>removed_required removed_props common nested.
           sorted_removed (py_or (dict_get b ''required'') (JArr []))
             (py_or (dict_get c ''required'') (JArr [])) = Inr removed_required
         \<and> sorted_removed (py_or (dict_get b ''properties'') (JObj []))
             (py_or (dict_get c ''properties'') (JObj [])) = Inr removed_props
         \<and> sorted_common (py_or (dict_get b ''properties'') (JObj []))
             (py_or (dict_get c ''properties'') (JObj [])) = Inr common
         \<and> collect (map (props_part depth (py_or (dict_get b ''properties'') (JObj []))
                       (py_or (dict_get c ''properties'') (JObj [])) base_doc curr_doc ctx) common)
             = Inr nested
         \<and> out = report (RequiredFieldsRemoved ctx) removed_required
                 @ report (ResponsePropertiesRemoved ctx) removed_props @ nested"
  using assms unfolding object_part_def by (simp add: andthen_eq_Inr) blast

lemma object_part_skip:
  assumes "\<not> (py_eq (dict_get b ''type'') (JStr ''object'') \<or> map_of b ''properties'' \<noteq> None)"
  shows "object_part depth b c base_doc curr_doc ctx = Inr []"
  using assms by (simp add: object_part_def)

lemma props_part_Inr:
  "props_part depth b_props c_props base_doc curr_doc ctx prop = Inr xs \<Longrightarrow>
   \<exists>bp cp. schema_breaks depth bp cp base_doc curr_doc (ctx @ ''.'' @ py_str prop) = Inr xs"
  by (auto simp: props_part_def andthen_eq_Inr)

lemma object_part_findings:
  assumes "object_part depth b c base_doc curr_doc ctx = Inr out" and "f \<in> set out"
  shows "(\<exists>removed. f = RequiredFieldsRemoved ctx removed \<and> removed \<noteq> [])
       \<or> (\<exists>removed. f = ResponsePropertiesRemoved ctx removed \<and> removed \<noteq> [])
       \<or> (\<exists>prop bp cp xs. schema_breaks depth bp cp base_doc curr_doc (ctx @ ''.'' @ py_str prop) = Inr xs
             \<and> f \<in> set xs)"
proof (cases "py_eq (dict_get b ''type'') (JStr ''object'') \<or> map_of b ''properties'' \<noteq> None")
  case True
  from object_part_Inr [OF assms(1) True] obtain removed_required removed_props common nested
    where n: "collect (map (props_part depth (py_or (dict_get b ''properties'') (JObj []))
                       (py_or (dict_get c ''properties'') (JObj [])) base_doc curr_doc ctx) common)
             = Inr nested"
      and o: "out = report (RequiredFieldsRemoved ctx) removed_required
                 @ report (ResponsePropertiesRemoved ctx) removed_props @ nested"
    by blast
  from assms(2) o consider "f \<in> set (report (RequiredFieldsRemoved ctx) removed_required)"
    | "f \<in> set (report (ResponsePropertiesRemoved ctx) removed_props)" | "f \<in> set nested"
    by auto
  then show ?thesis
  proof cases
    case 1
    then show ?thesis by (auto simp: report_def split: if_splits)
  next
    case 2
    then show ?thesis by (auto simp: report_def split: if_splits)
  next
    case 3
    from collect_map_origin [OF n "3"] obtain p xs where
      "props_part depth (py_or (dict_get b ''properties'') (JObj []))
         (py_or (dict_get c ''properties'') (JObj [])) base_doc curr_doc ctx p = Inr xs"
      and fx: "f \<in> set xs"
      by blast
    from props_part_Inr [OF this(1)] fx show ?thesis by blast
  qed
next
  case False
  with assms show ?thesis by (simp add: object_part_skip)
qed

lemma array_part_findings:
  assumes "array_part depth b c base_doc curr_doc ctx = Inr out" and "f \<in> set out"
  shows "\<exists>bs cs. schema_breaks depth bs cs base_doc curr_doc (ctx @ ''[]'') = Inr out"
  using assms by (auto simp: array_part_def split: if_splits)

lemma schema_breaks_Inr_cases:
  assumes "schema_breaks (Suc depth) base_schema curr_schema base_doc curr_doc ctx = Inr out"
    and "f \<in> set out"
  shows "(\<exists>b_type c_type. f = SchemaTypeChanged ctx b_type c_type)
       \<or> (\<exists>b c out1 out2 out3.
             resolve_ref (py_or base_schema (JObj [])) base_doc {} = JObj b
           \<and> resolve_ref (py_or curr_schema (JObj [])) curr_doc {} = JObj c
           \<and> enum_part b c ctx = Inr out1
           \<and> object_part depth b c base_doc curr_doc ctx = Inr out2
           \<and> array_part depth b c base_doc curr_doc ctx = Inr out3
           \<and> out = out1 @ out2 @ out3)"
  using assms unfolding schema_breaks_Suc
  by (auto simp: andthen_eq_Inr split: json.splits if_splits)

lemma schema_findings_under:
  "schema_breaks limit base_schema curr_schema base_doc curr_doc ctx = Inr out \<Longrightarrow> f \<in> set out \<Longrightarrow>
   \<exists>c. finding_ctx f = Some c \<and> startswith c ctx"
proof (induction limit arbitrary: base_schema curr_schema ctx out f)
  case 0
  then show ?case by (simp add: schema_breaks.simps)
next
  case (Suc limit)
  from schema_breaks_Inr_cases [OF Suc.prems]
  show ?case
  proof (elim disjE exE conjE)
    fix b_type c_type
    assume "f = SchemaTypeChanged ctx b_type c_type"
    then show ?thesis by (simp add: startswith_refl)
  next
    fix b c out1 out2 out3
    assume e: "enum_part b c ctx = Inr out1"
      and ob: "object_part limit b c base_doc curr_doc ctx = Inr out2"
      and ar: "array_part limit b c base_doc curr_doc ctx = Inr out3"
      and o: "out = out1 @ out2 @ out3"
    from Suc.prems(2) o consider "f \<in> set out1" | "f \<in> set out2" | "f \<in> set out3" by auto
    then show ?thesis
    proof cases
      case 1
      from enum_part_findings [OF e "1"] show ?thesis by (auto simp: startswith_refl)
    next
      case 2
      from object_part_findings [OF ob "2"] show ?thesis
      proof (elim disjE exE conjE)
        fix p bp cp xs
        assume "schema_breaks limit bp cp base_doc curr_doc (ctx @ ''.'' @ py_str p) = Inr xs"
          and "f \<in> set xs"
        from Suc.IH [OF this] obtain c where "finding_ctx f = Some c"
          and "startswith c (ctx @ ''.'' @ py_str p)" by blast
        then show ?thesis using startswith_append by blast
      qed (auto simp: startswith_refl)
    next
      case 3
      from array_part_findings [OF ar "3"] obtain bs cs where
        "schema_breaks limit bs cs base_doc curr_doc (ctx @ ''[]'') = Inr out3" by blast
      from Suc.IH [OF this "3"] obtain c where "finding_ctx f = Some c"
        and "startswith c (ctx @ ''[]'')" by blast
      then show ?thesis using startswith_append by blast
    qed
  qed
qed

section \<open>The recursion limit\<close>


section \<open>A type change is the only finding of its pair\<close>

text \<open>
  Claim C4. When both schemas resolve to objects whose \<^verbatim>\<open>type\<close> values are non-empty
  (true for Python) and distinct (\<^verbatim>\<open>!=\<close>), \<open>schema_breaks\<close> returns exactly the one
  finding \<^verbatim>\<open>"{ctx}: schema type changed from {b_type} to {c_type}"\<close>. It holds with a
  recursion limit of a single call, so no properties, items, enum or required of the
  pair are descended into: a nested call would raise \<open>RecursionError\<close> there. For two
  strings, non-empty and distinct are \<open>s \<noteq> []\<close> and \<open>s \<noteq> t\<close> (\<open>py_eq_JStr\<close>).
\<close>

theorem type_change_single_finding:
  assumes "resolve_ref (py_or base_schema (JObj [])) base_doc {} = JObj b"
    and "resolve_ref (py_or curr_schema (JObj [])) curr_doc {} = JObj c"
    and "py_truthy (dict_get b ''type'')"
    and "py_truthy (dict_get c ''type'')"
    and "\<not> py_eq (dict_get b ''type'') (dict_get c ''type'')"
  shows "schema_breaks (Suc depth) base_schema curr_schema base_doc curr_doc ctx
         = Inr [SchemaTypeChanged ctx (dict_get b ''type'') (dict_get c ''type'')]"
  using assms by (simp add: schema_breaks.simps)

theorem type_change_single_finding_witness:
  "schema_breaks (Suc 0)
     (JObj [(''type'', JStr ''object''),
            (''required'', JArr [JStr ''id'']),
            (''properties'', JObj [(''id'', JObj [(''type'', JStr ''string'')])])])
     (JObj [(''type'', JStr ''array''),
            (''items'', JObj [(''type'', JStr ''string'')])])
     (JObj []) (JObj []) ''GET /pets 200 [application/json]''
   = Inr [SchemaTypeChanged ''GET /pets 200 [application/json]'' (JStr ''object'') (JStr ''array'')]"
proof -
  let ?b = "[(''type'', JStr ''object''),
            (''required'', JArr [JStr ''id'']),
            (''properties'', JObj [(''id'', JObj [(''type'', JStr ''string'')])])]"
  let ?c = "[(''type'', JStr ''array''), (''items'', JObj [(''type'', JStr ''string'')])]"
  have b: "resolve_ref (py_or (JObj ?b) (JObj [])) (JObj []) {} = JObj ?b"
    by (simp add: resolve_ref.simps py_or_def dict_get_def)
  have c: "resolve_ref (py_or (JObj ?c) (JObj [])) (JObj []) {} = JObj ?c"
    by (simp add: resolve_ref.simps py_or_def dict_get_def)
  have tb: "py_truthy (dict_get ?b ''type'')" by (simp add: dict_get_def)
  have tc: "py_truthy (dict_get ?c ''type'')" by (simp add: dict_get_def)
  have ne: "\<not> py_eq (dict_get ?b ''type'') (dict_get ?c ''type'')"
    by (simp add: dict_get_def py_eq_def)
  show ?thesis
    using type_change_single_finding [OF b c tb tc ne, of 0 "''GET /pets 200 [application/json]''"]
    by (simp add: dict_get_def)
qed


section \<open>A self-referential schema exhausts the recursion\<close>

lemma resolve_node_ref:
  "resolve_ref (py_or node_ref (JObj [])) node_doc {} = node_schema"
  by (simp add: resolve_ref.simps py_or_def node_ref_def node_doc_def node_schema_def
      dict_get_def startswith_def)

lemma node_ref_step:
  assumes "\<And>ctx. schema_breaks limit node_ref node_ref node_doc node_doc ctx = Inl RecursionError"
  shows "schema_breaks (Suc limit) node_ref node_ref node_doc node_doc ctx = Inl RecursionError"
proof -
  have r: "resolve_ref (py_or node_ref (JObj [])) node_doc {} = node_schema"
    by (rule resolve_node_ref)
  have n: "JObj [(''$ref'', JStr ''#/components/schemas/Node'')] = node_ref"
    by (simp add: node_ref_def)
  show ?thesis
    unfolding schema_breaks.simps r
    unfolding node_schema_def
    by (simp add: dict_get_def py_eq_def py_or_def sorted_removed_def sorted_common_def
        py_set_def py_sorted_def set_diff_def set_inter_def set_add_def set_contains_def
        andthen_def report_def n assms)
qed

text \<open>
  What the \<open>seen\<close> set does stop is a chain of pointers that leads back into itself:
  \<^verbatim>\<open>#/A\<close> points to \<^verbatim>\<open>#/B\<close>, which points to \<^verbatim>\<open>#/A\<close> again, and the node reached last
  is returned unresolved.
\<close>

lemma pointer_cycle_is_cut:
  "resolve_ref (JObj [(''$ref'', JStr ''#/A'')])
     (JObj [(''A'', JObj [(''$ref'', JStr ''#/B'')]), (''B'', JObj [(''$ref'', JStr ''#/A'')])]) {}
   = JObj [(''$ref'', JStr ''#/A'')]"
  by (simp add: resolve_ref.simps dict_get_def startswith_def)

text \<open>
  Claim C1 does not hold of the script. \<open>resolve_ref\<close> itself is total (its
  termination is proved above), and its \<open>seen\<close> set stops a chain of pointers that
  leads back to itself. But \<open>schema_breaks\<close> starts every resolution with a fresh
  \<open>seen\<close> and keeps no record of the schemas it has entered: from the node it enters
  the property \<^verbatim>\<open>next\<close>, resolves its pointer to the node, and enters \<^verbatim>\<open>next\<close> again.
  Whatever the recursion limit, comparing the self-referential node with itself ends in
  \<open>RecursionError\<close>; no findings are returned.
\<close>

theorem cyclic_schema_exhausts_recursion:
  "schema_breaks limit node_ref node_ref node_doc node_doc ctx = Inl RecursionError"
proof (induction limit arbitrary: ctx)
  case 0
  show ?case by (simp add: schema_breaks.simps)
next
  case (Suc limit)
  then show ?case by (rule node_ref_step)
qed


section \<open>Comparing a recursive schema with itself\<close>

lemma resolve_tree:
  "resolve_ref (py_or tree_schema (JObj [])) tree_doc {} = tree_schema"
  by (simp add: resolve_ref.simps py_or_def tree_schema_def dict_get_def)

lemma resolve_tree_items:
  "resolve_ref (py_or (JObj [(''$ref'', JStr ''#/definitions/Tree'')]) (JObj [])) tree_doc {} = tree_schema"
  by (simp add: resolve_ref.simps py_or_def tree_doc_def tree_schema_def dict_get_def startswith_def)

lemma tree_step:
  assumes "\<And>ctx. schema_breaks limit (JObj [(''$ref'', JStr ''#/definitions/Tree'')])
             (JObj [(''$ref'', JStr ''#/definitions/Tree'')]) tree_doc tree_doc ctx = Inl RecursionError"
  shows "schema_breaks (Suc limit) (JObj [(''$ref'', JStr ''#/definitions/Tree'')])
             (JObj [(''$ref'', JStr ''#/definitions/Tree'')]) tree_doc tree_doc ctx = Inl RecursionError"
  unfolding schema_breaks.simps resolve_tree_items
  unfolding tree_schema_def
  by (simp add: dict_get_def py_eq_def py_or_def andthen_def assms)

lemma tree_items_exhaust:
  "schema_breaks limit (JObj [(''$ref'', JStr ''#/definitions/Tree'')])
     (JObj [(''$ref'', JStr ''#/definitions/Tree'')]) tree_doc tree_doc ctx = Inl RecursionError"
proof (induction limit arbitrary: ctx)
  case 0
  show ?case by (simp add: schema_breaks.simps)
next
  case (Suc limit)
  then show ?case by (rule tree_step)
qed

text \<open>
  Wherever the comparison of a schema with itself returns, it returns no finding: the
  two types are equal, and every set difference is empty.
\<close>

lemma sorted_removed_self: "sorted_removed x x = Inr removed \<Longrightarrow> removed = []"
proof -
  assume a: "sorted_removed x x = Inr removed"
  then obtain s where "py_set x = Inr s" and r: "py_sorted (set_diff s s) = Inr removed"
    unfolding sorted_removed_def andthen_eq_Inr by auto
  have "set_diff s s = []"
    by (auto simp: set_diff_def set_contains_def filter_empty_conv)
  with r show ?thesis by (simp add: py_sorted_def)
qed

lemma enum_part_self: "enum_part b b ctx = Inr out \<Longrightarrow> out = []"
  by (auto simp: enum_part_def andthen_eq_Inr report_def dest: sorted_removed_self
      split: json.splits)

lemma self_comparison_is_empty:
  "schema_breaks limit schema schema doc doc ctx = Inr out \<Longrightarrow> out = []"
proof (induction limit arbitrary: schema ctx out)
  case 0
  then show ?case by (simp add: schema_breaks.simps)
next
  case (Suc limit)
  show ?case
  proof (cases "resolve_ref (py_or schema (JObj [])) doc {}")
    case (JObj b)
    from Suc.prems obtain out1 out2 out3 where
      e: "enum_part b b ctx = Inr out1"
      and ob: "object_part limit b b doc doc ctx = Inr out2"
      and ar: "array_part limit b b doc doc ctx = Inr out3"
      and o: "out = out1 @ out2 @ out3"
      unfolding schema_breaks_Suc JObj by (auto simp: py_eq_refl andthen_eq_Inr)
    have o1: "out1 = []" using e by (rule enum_part_self)
    have o2: "out2 = []"
    proof (cases "py_eq (dict_get b ''type'') (JStr ''object'') \<or> map_of b ''properties'' \<noteq> None")
      case True
      from object_part_Inr [OF ob True]
      obtain removed_required removed_props common nested where
        rr: "sorted_removed (py_or (dict_get b ''required'') (JArr []))
               (py_or (dict_get b ''required'') (JArr [])) = Inr removed_required"
        and rp: "sorted_removed (py_or (dict_get b ''properties'') (JObj []))
               (py_or (dict_get b ''properties'') (JObj [])) = Inr removed_props"
        and cl: "collect (map (props_part limit (py_or (dict_get b ''properties'') (JObj []))
                     (py_or (dict_get b ''properties'') (JObj [])) doc doc ctx) common)
                 = Inr nested"
        and o2: "out2 = report (RequiredFieldsRemoved ctx) removed_required
               @ report (ResponsePropertiesRemoved ctx) removed_props @ nested"
        by blast
      have "f \<notin> set nested" for f
      proof
        assume "f \<in> set nested"
        from collect_map_origin [OF cl this] obtain p xs where
          pp: "props_part limit (py_or (dict_get b ''properties'') (JObj []))
             (py_or (dict_get b ''properties'') (JObj [])) doc doc ctx p = Inr xs"
          and fx: "f \<in> set xs" by blast
        from pp obtain v where
          "schema_breaks limit v v doc doc (ctx @ ''.'' @ py_str p) = Inr xs"
          unfolding props_part_def andthen_eq_Inr by auto
        from Suc.IH [OF this] fx show False by simp
      qed
      then have "nested = []" by (cases nested) auto
      with o2 sorted_removed_self [OF rr] sorted_removed_self [OF rp] show ?thesis
        by (simp add: report_def)
    next
      case False
      with ob show ?thesis by (simp add: object_part_skip)
    qed
    have o3: "out3 = []"
    proof (cases "py_eq (dict_get b ''type'') (JStr ''array'')")
      case True
      with ar have "schema_breaks limit (py_or (dict_get b ''items'') (JObj []))
             (py_or (dict_get b ''items'') (JObj [])) doc doc (ctx @ ''[]'') = Inr out3"
        by (simp add: array_part_def)
      then show ?thesis by (rule Suc.IH)
    next
      case False
      with ar show ?thesis by (simp add: array_part_def)
    qed
    from o o1 o2 o3 show ?thesis by simp
  qed (use Suc.prems in \<open>simp_all add: schema_breaks_Suc\<close>)
qed

text \<open>
  Claim C5 fails on the script for the same reason as claim C1. A well-formed recursive
  schema (an array whose items are the array type again), compared with itself, makes
  \<open>schema_breaks\<close> recurse until \<open>RecursionError\<close>, whatever the recursion limit: the
  empty list is never returned.
\<close>

theorem self_comparison_of_recursive_schema:
  "schema_breaks limit tree_schema tree_schema tree_doc tree_doc ctx = Inl RecursionError"
proof (cases limit)
  case 0
  then show ?thesis by (simp add: schema_breaks.simps)
next
  case (Suc n)
  show ?thesis
    unfolding Suc schema_breaks.simps resolve_tree
    unfolding tree_schema_def
    by (simp add: dict_get_def py_eq_def py_or_def andthen_def tree_items_exhaust)
qed

section \<open>Enums with structured members\<close>

lemma set_from_unhashable:
  "\<exists>x\<in>set xs. hashable x = None \<Longrightarrow> set_from acc xs = Inl TypeError"
  by (induction xs arbitrary: acc) (auto split: option.splits)

lemma set_from_error: "set_from acc xs = Inl e \<Longrightarrow> e = TypeError"
  by (induction xs arbitrary: acc) (auto split: option.splits)

lemma sorted_removed_unhashable:
  assumes "(\<exists>x\<in>set xs. hashable x = None) \<or> (\<exists>x\<in>set ys. hashable x = None)"
  shows "sorted_removed (JArr xs) (JArr ys) = Inl TypeError"
proof (cases "set_from [] xs")
  case (Inl e)
  then show ?thesis
    using set_from_error [OF Inl] by (simp add: sorted_removed_def py_set_def andthen_def)
next
  case (Inr sa)
  have "\<not> (\<exists>x\<in>set xs. hashable x = None)"
  proof
    assume "\<exists>x\<in>set xs. hashable x = None"
    then have "set_from [] xs = Inl TypeError" by (rule set_from_unhashable)
    with Inr show False by simp
  qed
  with assms have "\<exists>x\<in>set ys. hashable x = None" by blast
  then have "set_from [] ys = Inl TypeError" by (rule set_from_unhashable)
  with Inr show ?thesis by (simp add: sorted_removed_def py_set_def andthen_def)
qed

text \<open>
  Claim C6, as the script has it. When both schemas resolve to objects that are not cut
  short by a type change, both declare an \<^verbatim>\<open>enum\<close> list, and a member of either list is
  a list or a dict, \<open>schema_breaks\<close> raises \<open>TypeError\<close> (from \<^verbatim>\<open>set(...)\<close>, before
  any property or item is compared).
\<close>

theorem structured_enum_member_raises:
  assumes "resolve_ref (py_or base_schema (JObj [])) base_doc {} = JObj b"
    and "resolve_ref (py_or curr_schema (JObj [])) curr_doc {} = JObj c"
    and "\<not> (py_truthy (dict_get b ''type'') \<and> py_truthy (dict_get c ''type'')
            \<and> \<not> py_eq (dict_get b ''type'') (dict_get c ''type''))"
    and "dict_get b ''enum'' = JArr b_enum"
    and "dict_get c ''enum'' = JArr c_enum"
    and "(\<exists>x\<in>set b_enum. hashable x = None) \<or> (\<exists>x\<in>set c_enum. hashable x = None)"
  shows "schema_breaks (Suc depth) base_schema curr_schema base_doc curr_doc ctx = Inl TypeError"
proof -
  have "sorted_removed (JArr b_enum) (JArr c_enum) = Inl TypeError"
    using assms(6) by (rule sorted_removed_unhashable)
  then show ?thesis
    using assms(1-5) by (simp add: schema_breaks.simps andthen_Inl Let_def)
qed

theorem structured_enum_member_raises_witness:
  "schema_breaks (Suc 0)
     (JObj [(''type'', JStr ''string''), (''enum'', JArr [JStr ''a'', JObj [(''code'', JNum 1)]])])
     (JObj [(''type'', JStr ''string''), (''enum'', JArr [JStr ''a''])])
     (JObj []) (JObj []) ''GET /pets 200 [application/json]'' = Inl TypeError"
proof -
  let ?b = "[(''type'', JStr ''string''), (''enum'', JArr [JStr ''a'', JObj [(''code'', JNum 1)]])]"
  let ?c = "[(''type'', JStr ''string''), (''enum'', JArr [JStr ''a''])]"
  have b: "resolve_ref (py_or (JObj ?b) (JObj [])) (JObj []) {} = JObj ?b"
    by (simp add: resolve_ref.simps py_or_def dict_get_def)
  have c: "resolve_ref (py_or (JObj ?c) (JObj [])) (JObj []) {} = JObj ?c"
    by (simp add: resolve_ref.simps py_or_def dict_get_def)
  have t: "\<not> (py_truthy (dict_get ?b ''type'') \<and> py_truthy (dict_get ?c ''type'')
            \<and> \<not> py_eq (dict_get ?b ''type'') (dict_get ?c ''type''))"
    by (simp add: dict_get_def py_eq_def)
  have be: "dict_get ?b ''enum'' = JArr [JStr ''a'', JObj [(''code'', JNum 1)]]"
    by (simp add: dict_get_def)
  have ce: "dict_get ?c ''enum'' = JArr [JStr ''a'']"
    by (simp add: dict_get_def)
  have m: "(\<exists>x\<in>set [JStr ''a'', JObj [(''code'', JNum 1)]]. hashable x = None)
         \<or> (\<exists>x\<in>set [JStr ''a'']. hashable x = None)"
    by simp
  show ?thesis
    using structured_enum_member_raises [OF b c t be ce m, of 0 "''GET /pets 200 [application/json]''"]
    by simp
qed

text \<open>
  Without the proviso the claim fails: when the two types differ, the type change is
  reported and returned before the enums are looked at, structured members or not.
\<close>

theorem structured_enum_after_type_change:
  "schema_breaks (Suc 0)
     (JObj [(''type'', JStr ''string''), (''enum'', JArr [JObj [(''code'', JNum 1)]])])
     (JObj [(''type'', JStr ''object''), (''enum'', JArr [JObj [(''code'', JNum 1)]])])
     (JObj []) (JObj []) ''ctx''
   = Inr [SchemaTypeChanged ''ctx'' (JStr ''string'') (JStr ''object'')]"
  by (simp add: schema_breaks.simps resolve_ref.simps py_or_def dict_get_def py_eq_def)

section \<open>Pointers that do not resolve\<close>

text \<open>
  Claim C7, as the script has it. When the walk along the pointer of a node fails (a
  segment is missing, or a node on the way is not a dict), \<open>resolve_ref\<close> returns the
  node itself, and raises nothing. The comparison then reads the fields of that node:
  a base schema that is nothing but the unresolved \<^verbatim>\<open>$ref\<close> gives no finding against any
  current schema.
\<close>

theorem unresolvable_ref_is_kept:
  assumes "dict_get kvs ''$ref'' = JStr ref"
    and "walk doc (split_on CHR ''/'' (drop 2 ref)) = None"
  shows "resolve_ref (JObj kvs) doc seen = JObj kvs
       \<and> schema_breaks (Suc depth) (JObj [(''$ref'', JStr ref)]) curr_schema doc curr_doc ctx = Inr []"
proof
  show "resolve_ref (JObj kvs) doc seen = JObj kvs"
    using assms by (simp add: resolve_ref.simps)
next
  have r: "resolve_ref (py_or (JObj [(''$ref'', JStr ref)]) (JObj [])) doc {} = JObj [(''$ref'', JStr ref)]"
    using assms(2) by (simp add: resolve_ref.simps py_or_def dict_get_def)
  show "schema_breaks (Suc depth) (JObj [(''$ref'', JStr ref)]) curr_schema doc curr_doc ctx = Inr []"
    unfolding schema_breaks.simps r
    by (simp add: dict_get_def py_eq_def andthen_def Let_def split: json.splits)
qed

theorem unresolvable_ref_is_kept_witness:
  "resolve_ref (JObj [(''$ref'', JStr ''#/components/schemas/Missing'')])
     (JObj [(''components'', JObj [(''schemas'', JObj [])])]) {}
   = JObj [(''$ref'', JStr ''#/components/schemas/Missing'')]
   \<and> schema_breaks (Suc 0) (JObj [(''$ref'', JStr ''#/components/schemas/Missing'')])
       (JObj [(''type'', JStr ''string'')])
       (JObj [(''components'', JObj [(''schemas'', JObj [])])]) (JObj []) ''ctx'' = Inr []"
proof -
  have r: "dict_get [(''$ref'', JStr ''#/components/schemas/Missing'')] ''$ref''
           = JStr ''#/components/schemas/Missing''"
    by (simp add: dict_get_def)
  have w: "walk (JObj [(''components'', JObj [(''schemas'', JObj [])])])
             (split_on CHR ''/'' (drop 2 ''#/components/schemas/Missing'')) = None"
    by simp
  show ?thesis
    using unresolvable_ref_is_kept [OF r w, of "{}" 0 "JObj [(''type'', JStr ''string'')]" "JObj []" "''ctx''"]
    by simp
qed

text \<open>
  The unresolved node does contribute findings when it stands on the current side: it
  is compared as a schema without \<^verbatim>\<open>required\<close> and \<^verbatim>\<open>properties\<close>, so everything the
  base schema requires and declares is reported as removed.
\<close>

theorem unresolved_current_side_reports_removals:
  "schema_breaks (Suc 0)
     (JObj [(''type'', JStr ''object''), (''required'', JArr [JStr ''id'']),
            (''properties'', JObj [(''id'', JObj [(''type'', JStr ''string'')])])])
     (JObj [(''$ref'', JStr ''#/components/schemas/Missing'')])
     (JObj [(''components'', JObj [(''schemas'', JObj [])])])
     (JObj [(''components'', JObj [(''schemas'', JObj [])])]) ''ctx''
   = Inr [RequiredFieldsRemoved ''ctx'' [SStr ''id''],
          ResponsePropertiesRemoved ''ctx'' [SStr ''id'']]"
  by (simp add: schema_breaks.simps resolve_ref.simps py_or_def dict_get_def py_eq_def startswith_def
      sorted_removed_def sorted_common_def py_set_def py_sorted_def set_diff_def
      set_inter_def set_add_def set_contains_def andthen_def report_def)


section \<open>Absent and false fields\<close>

lemma resolve_empty: "resolve_ref (JObj []) doc seen = JObj []"
  by (simp add: resolve_ref.simps dict_get_def)

lemma empty_pair: "schema_breaks (Suc depth) (JObj []) (JObj []) base_doc curr_doc ctx = Inr []"
  by (simp add: schema_breaks.simps py_or_def resolve_empty dict_get_def py_eq_def andthen_def)

lemma sorted_removed_empty: "sorted_removed (JArr []) (JArr []) = Inr []"
  by (simp add: sorted_removed_def py_set_def andthen_def py_sorted_def set_diff_def)

lemma sorted_removed_empty_obj: "sorted_removed (JObj []) (JObj []) = Inr []"
  by (simp add: sorted_removed_def py_set_def andthen_def py_sorted_def set_diff_def)

lemma sorted_common_empty_obj: "sorted_common (JObj []) (JObj []) = Inr []"
  by (simp add: sorted_common_def py_set_def andthen_def py_sorted_def set_inter_def)

lemma falsy_enum_pair:
  assumes "\<not> py_truthy x" "\<not> py_truthy y"
  shows "(case x of
            JArr b_enum \<Rightarrow>
              (case y of
                 JArr c_enum \<Rightarrow>
                   andthen (sorted_removed (JArr b_enum) (JArr c_enum))
                     (\<lambda>removed. Inr (report f removed))
               | _ \<Rightarrow> Inr [])
          | _ \<Rightarrow> Inr []) = Inr []"
  using assms by (cases x; cases y) (simp_all add: sorted_removed_empty andthen_def report_def)

text \<open>
  When, in both resolved schemas, each of \<^verbatim>\<open>enum\<close>, \<^verbatim>\<open>required\<close>, \<^verbatim>\<open>properties\<close> and \<^verbatim>\<open>items\<close>
  is absent or holds a value that is false for Python, the findings are empty or the
  single type change, and two nested calls suffice (two arrays without items compare two
  empty schemas).
\<close>

theorem falsy_fields_default:
  assumes "defaults_only (resolve_ref (py_or base_schema (JObj [])) base_doc {})"
    and "defaults_only (resolve_ref (py_or curr_schema (JObj [])) curr_doc {})"
  shows "\<exists>out. schema_breaks (Suc (Suc depth)) base_schema curr_schema base_doc curr_doc ctx = Inr out
           \<and> (out = [] \<or> (\<exists>b_type c_type. out = [SchemaTypeChanged ctx b_type c_type]))"
proof (cases "resolve_ref (py_or base_schema (JObj [])) base_doc {}")
  case (JObj b)
  note B = this
  show ?thesis
  proof (cases "resolve_ref (py_or curr_schema (JObj [])) curr_doc {}")
    case (JObj c)
    have fb: "\<not> py_truthy (dict_get b ''enum'')" "\<not> py_truthy (dict_get b ''required'')"
      "\<not> py_truthy (dict_get b ''properties'')" "\<not> py_truthy (dict_get b ''items'')"
      using assms(1) B by (simp_all add: defaults_only_def)
    have fc: "\<not> py_truthy (dict_get c ''enum'')" "\<not> py_truthy (dict_get c ''required'')"
      "\<not> py_truthy (dict_get c ''properties'')" "\<not> py_truthy (dict_get c ''items'')"
      using assms(2) JObj by (simp_all add: defaults_only_def)
    show ?thesis
      unfolding schema_breaks.simps(2) [of "Suc depth"] B JObj
      using fb fc
      by (simp add: Let_def py_or_def falsy_enum_pair andthen_Inr sorted_removed_empty
          sorted_removed_empty_obj sorted_common_empty_obj report_def empty_pair)
  qed (simp_all add: B schema_breaks.simps)
qed (simp_all add: schema_breaks.simps)

theorem falsy_fields_default_witness:
  "\<exists>out. schema_breaks (Suc (Suc 0))
       (JObj [(''type'', JStr ''array''), (''items'', JNull), (''enum'', JNull), (''required'', JBool False)])
       (JObj [(''type'', JStr ''array''), (''properties'', JObj []), (''required'', JArr [])])
       (JObj []) (JObj []) ''ctx'' = Inr out
     \<and> (out = [] \<or> (\<exists>b_type c_type. out = [SchemaTypeChanged ''ctx'' b_type c_type]))"
proof -
  have b: "defaults_only (resolve_ref (py_or
       (JObj [(''type'', JStr ''array''), (''items'', JNull), (''enum'', JNull), (''required'', JBool False)])
       (JObj [])) (JObj []) {})"
    by (simp add: defaults_only_def resolve_ref.simps py_or_def dict_get_def)
  have c: "defaults_only (resolve_ref (py_or
       (JObj [(''type'', JStr ''array''), (''properties'', JObj []), (''required'', JArr [])])
       (JObj [])) (JObj []) {})"
    by (simp add: defaults_only_def resolve_ref.simps py_or_def dict_get_def)
  show ?thesis by (rule falsy_fields_default [OF b c])
qed





lemma well_shaped_mono: "well_shaped n schema doc \<Longrightarrow> well_shaped (Suc n) schema doc"
proof (induction n arbitrary: schema)
  case 0
  then show ?case by simp
next
  case (Suc n)
  show ?case
  proof (cases "resolve_ref (py_or schema (JObj [])) doc {}")
    case (JObj kvs)
    from Suc.prems JObj have f: "fields_ok kvs" by simp
    then obtain props where p: "py_or (dict_get kvs ''properties'') (JObj []) = JObj props"
      by (auto simp: fields_ok_def split: json.splits)
    from Suc.prems JObj p have "list_all (\<lambda>kv. well_shaped n (snd kv) doc) props" by simp
    with Suc.IH have pl: "list_all (\<lambda>kv. well_shaped (Suc n) (snd kv) doc) props"
      by (simp add: list_all_iff)
    have it: "well_shaped (Suc n) (py_or (dict_get kvs ''items'') (JObj [])) doc"
      if "py_eq (dict_get kvs ''type'') (JStr ''array'')"
      using Suc.prems JObj that Suc.IH by simp
    show ?thesis
      using JObj f p pl it by (simp del: well_shaped.simps(2) add: well_shaped.simps(2) [of "Suc n"])
  qed (simp_all)
qed





text \<open>
  A schema that reaches itself again is well shaped to no depth: the self-referential
  node is not, so nothing is said here of schemas that recurse.
\<close>

lemma self_reference_not_well_shaped: "\<not> well_shaped n node_ref node_doc"
proof (induction n)
  case 0
  show ?case by simp
next
  case (Suc n)
  have n: "JObj [(''$ref'', JStr ''#/components/schemas/Node'')] = node_ref"
    by (simp add: node_ref_def)
  show ?case
    unfolding well_shaped.simps resolve_node_ref
    unfolding node_schema_def
    by (simp add: dict_get_def py_or_def n Suc)
qed



text \<open>The findings of that comparison: what the base requires and declares beyond the current schema.\<close>

lemma partial_result:
  "schema_breaks 3 partial_base partial_current (JObj []) (JObj []) ''ctx''
   = Inr [RequiredFieldsRemoved ''ctx'' [SStr ''id''], ResponsePropertiesRemoved ''ctx'' [SStr ''id'']]"
  by code_simp


section \<open>Added properties\<close>

lemma sorted_removed_subset:
  assumes "py_set x = Inr sx" and "py_set y = Inr sy"
    and "set (map hash_key sx) \<subseteq> set (map hash_key sy)"
  shows "sorted_removed x y = Inr []"
proof -
  have "set_diff sx sy = []"
    using assms(3) by (auto simp: set_diff_def set_contains_def filter_empty_conv)
  then show ?thesis
    using assms(1,2) by (simp add: sorted_removed_def andthen_def py_sorted_def)
qed

lemma sorted_removed_dict_subset:
  assumes "fst ` set a \<subseteq> fst ` set b"
  shows "sorted_removed (JObj a) (JObj b) = Inr []"
proof -
  from sorted_removed_dict [of a b] obtain r where
    r: "sorted_removed (JObj a) (JObj b) = Inr r" and s: "set r = SStr ` (fst ` set a - fst ` set b)"
    by blast
  from assms s have "set r = {}" by auto
  with r show ?thesis by simp
qed

text \<open>
  Claim C8, as the script has it. When both schemas resolve to objects, every required
  name of the base is required by the current schema (in particular when the two sets
  are equal), and every property of the base is a property of the current schema, the
  findings that \<open>schema_breaks\<close> returns hold no required-fields-removed and no
  properties-removed finding at the context \<open>ctx\<close> of the pair. Findings for the
  schemas of the shared properties are still reported, each under its own longer context.
\<close>

theorem additions_are_silent_at_their_level:
  assumes rb: "resolve_ref (py_or base_schema (JObj [])) base_doc {} = JObj b"
    and rc: "resolve_ref (py_or curr_schema (JObj [])) curr_doc {} = JObj c"
    and breq: "py_set (py_or (dict_get b ''required'') (JArr [])) = Inr b_required"
    and creq: "py_set (py_or (dict_get c ''required'') (JArr [])) = Inr c_required"
    and req: "set (map hash_key b_required) \<subseteq> set (map hash_key c_required)"
    and bprops: "py_or (dict_get b ''properties'') (JObj []) = JObj b_props"
    and cprops: "py_or (dict_get c ''properties'') (JObj []) = JObj c_props"
    and props: "fst ` set b_props \<subseteq> fst ` set c_props"
    and out: "schema_breaks limit base_schema curr_schema base_doc curr_doc ctx = Inr out"
  shows "RequiredFieldsRemoved ctx removed \<notin> set out
       \<and> ResponsePropertiesRemoved ctx removed \<notin> set out"
proof -
  have nested_longer: "f \<notin> set xs"
    if "schema_breaks n bs cs base_doc curr_doc (ctx @ s) = Inr xs" and "s \<noteq> []"
      and "finding_ctx f = Some ctx" for f n bs cs s xs
  proof
    assume "f \<in> set xs"
    from schema_findings_under [OF that(1) this] that(3) have "startswith ctx (ctx @ s)" by simp
    from startswith_longer [OF this that(2)] show False by simp
  qed
  have main: "f \<notin> set out"
    if fc: "finding_ctx f = Some ctx"
      and shape: "(\<exists>r. f = RequiredFieldsRemoved ctx r) \<or> (\<exists>r. f = ResponsePropertiesRemoved ctx r)"
    for f
  proof
    assume fin: "f \<in> set out"
    obtain n where n: "limit = Suc n"
      using out by (cases limit) (simp_all add: schema_breaks.simps)
    from schema_breaks_Inr_cases [OF out [unfolded n] fin] shape
    obtain b' c' out1 out2 out3 where
      "resolve_ref (py_or base_schema (JObj [])) base_doc {} = JObj b'"
      "resolve_ref (py_or curr_schema (JObj [])) curr_doc {} = JObj c'"
      and e: "enum_part b' c' ctx = Inr out1"
      and ob: "object_part n b' c' base_doc curr_doc ctx = Inr out2"
      and ar: "array_part n b' c' base_doc curr_doc ctx = Inr out3"
      and o: "out = out1 @ out2 @ out3"
      by auto
    with rb rc have bc: "b' = b" "c' = c" by simp_all
    from fin o consider "f \<in> set out1" | "f \<in> set out2" | "f \<in> set out3" by auto
    then show False
    proof cases
      case 1
      from enum_part_findings [OF e "1"] shape show False by auto
    next
      case 2
      show False
      proof (cases "py_eq (dict_get b ''type'') (JStr ''object'') \<or> map_of b ''properties'' \<noteq> None")
        case True
        from object_part_Inr [OF ob [unfolded bc] True]
        obtain removed_required removed_props common nested where
          rr: "sorted_removed (py_or (dict_get b ''required'') (JArr []))
                 (py_or (dict_get c ''required'') (JArr [])) = Inr removed_required"
          and rp: "sorted_removed (py_or (dict_get b ''properties'') (JObj []))
                 (py_or (dict_get c ''properties'') (JObj [])) = Inr removed_props"
          and cl: "collect (map (props_part n (py_or (dict_get b ''properties'') (JObj []))
                       (py_or (dict_get c ''properties'') (JObj [])) base_doc curr_doc ctx) common)
                   = Inr nested"
          and o2: "out2 = report (RequiredFieldsRemoved ctx) removed_required
                 @ report (ResponsePropertiesRemoved ctx) removed_props @ nested"
          by blast
        from rr sorted_removed_subset [OF breq creq req] have "removed_required = []" by simp
        moreover from rp sorted_removed_dict_subset [OF props] bprops cprops
        have "removed_props = []" by simp
        ultimately have "out2 = nested" using o2 by (simp add: report_def)
        with "2" have "f \<in> set nested" by simp
        from collect_map_origin [OF cl this] obtain p xs where
          "props_part n (py_or (dict_get b ''properties'') (JObj []))
             (py_or (dict_get c ''properties'') (JObj [])) base_doc curr_doc ctx p = Inr xs"
          and fx: "f \<in> set xs" by blast
        from props_part_Inr [OF this(1)] obtain bp cp where
          "schema_breaks n bp cp base_doc curr_doc (ctx @ ''.'' @ py_str p) = Inr xs" by blast
        from nested_longer [OF this _ fc] fx show False by simp
      next
        case False
        with ob bc "2" show False by (simp add: object_part_skip)
      qed
    next
      case 3
      from array_part_findings [OF ar "3"] obtain bs cs where
        "schema_breaks n bs cs base_doc curr_doc (ctx @ ''[]'') = Inr out3" by blast
      from nested_longer [OF this _ fc] "3" show False by simp
    qed
  qed
  show ?thesis using main [of "RequiredFieldsRemoved ctx removed"]
      main [of "ResponsePropertiesRemoved ctx removed"] by simp
qed

theorem additions_are_silent_at_their_level_witness:
  "schema_breaks (Suc (Suc 0))
     (JObj [(''type'', JStr ''object''), (''required'', JArr [JStr ''id'']),
            (''properties'', JObj [(''id'', JObj [(''type'', JStr ''string'')]),
                                   (''tags'', JObj [(''properties'', JObj [(''colour'', JObj [])])])])])
     (JObj [(''type'', JStr ''object''), (''required'', JArr [JStr ''id'']),
            (''properties'', JObj [(''id'', JObj [(''type'', JStr ''string'')]),
                                   (''tags'', JObj [(''type'', JStr ''object'')]),
                                   (''name'', JObj [(''type'', JStr ''string'')])])])
     (JObj []) (JObj []) ''ctx''
   = Inr [ResponsePropertiesRemoved ''ctx.tags'' [SStr ''colour'']]
   \<and> RequiredFieldsRemoved ''ctx'' [SStr ''colour'']
       \<notin> set [ResponsePropertiesRemoved ''ctx.tags'' [SStr ''colour'']]
   \<and> ResponsePropertiesRemoved ''ctx'' [SStr ''colour'']
       \<notin> set [ResponsePropertiesRemoved ''ctx.tags'' [SStr ''colour'']]"
proof -
  let ?bp = "[(''id'', JObj [(''type'', JStr ''string'')]),
              (''tags'', JObj [(''properties'', JObj [(''colour'', JObj [])])])]"
  let ?cp = "[(''id'', JObj [(''type'', JStr ''string'')]),
              (''tags'', JObj [(''type'', JStr ''object'')]),
              (''name'', JObj [(''type'', JStr ''string'')])]"
  let ?b = "[(''type'', JStr ''object''), (''required'', JArr [JStr ''id'']), (''properties'', JObj ?bp)]"
  let ?c = "[(''type'', JStr ''object''), (''required'', JArr [JStr ''id'']), (''properties'', JObj ?cp)]"
  have rb: "resolve_ref (py_or (JObj ?b) (JObj [])) (JObj []) {} = JObj ?b"
    by (simp add: resolve_ref.simps py_or_def dict_get_def)
  have rc: "resolve_ref (py_or (JObj ?c) (JObj [])) (JObj []) {} = JObj ?c"
    by (simp add: resolve_ref.simps py_or_def dict_get_def)
  have breq: "py_set (py_or (dict_get ?b ''required'') (JArr [])) = Inr [SStr ''id'']"
    by (simp add: py_set_def py_or_def dict_get_def set_add_def set_contains_def)
  have creq: "py_set (py_or (dict_get ?c ''required'') (JArr [])) = Inr [SStr ''id'']"
    by (simp add: py_set_def py_or_def dict_get_def set_add_def set_contains_def)
  have req: "set (map hash_key [SStr ''id'']) \<subseteq> set (map hash_key [SStr ''id''])"
    by simp
  have bprops: "py_or (dict_get ?b ''properties'') (JObj []) = JObj ?bp"
    by (simp add: py_or_def dict_get_def)
  have cprops: "py_or (dict_get ?c ''properties'') (JObj []) = JObj ?cp"
    by (simp add: py_or_def dict_get_def)
  have props: "fst ` set ?bp \<subseteq> fst ` set ?cp"
    by simp
  have out: "schema_breaks (Suc (Suc 0)) (JObj ?b) (JObj ?c) (JObj []) (JObj []) ''ctx''
             = Inr [ResponsePropertiesRemoved ''ctx.tags'' [SStr ''colour'']]"
    by code_simp
  from additions_are_silent_at_their_level [OF rb rc breq creq req bprops cprops props out,
      of "[SStr ''colour'']"] out
  show ?thesis by (intro conjI) simp_all
qed

text \<open>
  Without the restriction to the pair's own context the claim fails. Here the two schemas
  are the same object (equal properties, no required names), the documents differ in what
  the shared pointer resolves to, and a properties-removed finding is produced for the
  nested pair.
\<close>

theorem nested_removal_under_equal_properties:
  "schema_breaks (Suc (Suc 0))
     (JObj [(''type'', JStr ''object''),
            (''properties'', JObj [(''owner'', JObj [(''$ref'', JStr ''#/components/schemas/Owner'')])])])
     (JObj [(''type'', JStr ''object''),
            (''properties'', JObj [(''owner'', JObj [(''$ref'', JStr ''#/components/schemas/Owner'')])])])
     (JObj [(''components'', JObj [(''schemas'', JObj [(''Owner'',
        JObj [(''type'', JStr ''object''),
              (''properties'', JObj [(''email'', JObj [(''type'', JStr ''string'')])])])])])])
     (JObj [(''components'', JObj [(''schemas'', JObj [(''Owner'',
        JObj [(''type'', JStr ''object'')])])])])
     ''ctx''
   = Inr [ResponsePropertiesRemoved ''ctx.owner'' [SStr ''email'']]"
  by code_simp

section \<open>The structure of a document comparison\<close>

lemma set_dedup_subset: "set (dedup kvs) \<subseteq> set kvs"
  by (induction kvs rule: dedup.induct) auto

lemma fst_set_dedup: "fst ` set (dedup kvs) = fst ` set kvs"
proof (induction kvs rule: dedup.induct)
  case 1
  show ?case by simp
next
  case (2 kv kvs)
  have "fst ` set (filter (\<lambda>p. fst p \<noteq> fst kv) kvs) = fst ` set kvs - {fst kv}"
    by auto
  with 2 show ?case by auto
qed

lemma response_breaks_findings:
  assumes "response_breaks limit base current method path b c code = Inr out" and "f \<in> set out"
  shows "(\<exists>mt. f = RemovedResponseMediaType mt method path (py_str code))
       \<or> (\<exists>ctx. finding_ctx f = Some ctx)"
proof -
  from assms(1) obtain b_content c_content removed_media common nested where
    cl: "collect (map (\<lambda>mt.
          andthen (media_schema b_content mt) (\<lambda>b_schema.
          andthen (media_schema c_content mt) (\<lambda>c_schema.
            schema_breaks limit b_schema c_schema base current
              (method @ '' '' @ py_str path @ '' '' @ py_str code @ '' ['' @ py_str mt @ '']''))))
          common) = Inr nested"
    and o: "out = map (\<lambda>mt. RemovedResponseMediaType mt method path (py_str code)) removed_media @ nested"
    unfolding response_breaks_def andthen_eq_Inr by blast
  from assms(2) o consider "\<exists>mt. f = RemovedResponseMediaType mt method path (py_str code)"
    | "f \<in> set nested" by auto
  then show ?thesis
  proof cases
    case 1
    then show ?thesis by blast
  next
    case 2
    from collect_map_origin [OF cl "2"] obtain mt ys where
      "andthen (media_schema b_content mt) (\<lambda>b_schema.
          andthen (media_schema c_content mt) (\<lambda>c_schema.
            schema_breaks limit b_schema c_schema base current
              (method @ '' '' @ py_str path @ '' '' @ py_str code @ '' ['' @ py_str mt @ '']''))) = Inr ys"
      and fy: "f \<in> set ys" by blast
    then obtain bs cs ctx where "schema_breaks limit bs cs base current ctx = Inr ys"
      unfolding andthen_eq_Inr by blast
    from schema_findings_under [OF this fy] show ?thesis by blast
  qed
qed

lemma operation_breaks_findings:
  assumes "operation_breaks limit base current method path b c = Inr out" and "f \<in> set out"
  shows "\<forall>q. f \<noteq> RemovedPath q"
proof -
  from assms(1) obtain new_required b_req_required c_req_required removed_success common nested where
    cl: "collect (map (response_breaks limit base current method path b c) common) = Inr nested"
    and o: "out = map (\<lambda>p. AddedRequiredParameter method path (fst p) (snd p)) new_required
          @ (if \<not> py_truthy b_req_required \<and> py_truthy c_req_required
             then [RequestBodyBecameRequired method path] else [])
          @ map (\<lambda>code. RemovedSuccessResponse (py_str code) method path) removed_success
          @ nested"
    unfolding operation_breaks_def andthen_eq_Inr by blast
  from assms(2) o consider
      "f \<in> set (map (\<lambda>p. AddedRequiredParameter method path (fst p) (snd p)) new_required)"
    | "f = RequestBodyBecameRequired method path"
    | "f \<in> set (map (\<lambda>code. RemovedSuccessResponse (py_str code) method path) removed_success)"
    | "f \<in> set nested"
    by (auto split: if_splits)
  then show ?thesis
  proof cases
    case 4
    from collect_map_origin [OF cl "4"] obtain code ys where
      "response_breaks limit base current method path b c code = Inr ys" and "f \<in> set ys"
      by blast
    from response_breaks_findings [OF this] show ?thesis by auto
  qed auto
qed

lemma path_breaks_Inr:
  assumes "path_breaks limit base current base_paths curr_paths path = Inr out"
  shows "\<exists>b_ops c_ops removed_ops common nested.
           path_ops base_paths path = Inr b_ops \<and> path_ops curr_paths path = Inr c_ops
         \<and> sorted_removed b_ops c_ops = Inr removed_ops
         \<and> sorted_common b_ops c_ops = Inr common
         \<and> collect (map (\<lambda>method.
              andthen (py_getitem b_ops method) (\<lambda>b.
              andthen (py_getitem c_ops method) (\<lambda>c.
                operation_breaks limit base current (upper (py_str method)) path b c))) common)
             = Inr nested
         \<and> out = map (\<lambda>method. RemovedOperation (upper (py_str method)) path) removed_ops @ nested"
  using assms unfolding path_breaks_def andthen_eq_Inr by blast

lemma path_breaks_findings:
  assumes "path_breaks limit base current base_paths curr_paths path = Inr out" and "f \<in> set out"
  shows "\<forall>q. f \<noteq> RemovedPath q"
proof -
  from path_breaks_Inr [OF assms(1)] obtain b_ops c_ops removed_ops common nested where
    cl: "collect (map (\<lambda>method.
              andthen (py_getitem b_ops method) (\<lambda>b.
              andthen (py_getitem c_ops method) (\<lambda>c.
                operation_breaks limit base current (upper (py_str method)) path b c))) common)
             = Inr nested"
    and o: "out = map (\<lambda>method. RemovedOperation (upper (py_str method)) path) removed_ops @ nested"
    by blast
  from assms(2) o consider
      "f \<in> set (map (\<lambda>method. RemovedOperation (upper (py_str method)) path) removed_ops)"
    | "f \<in> set nested" by auto
  then show ?thesis
  proof cases
    case 2
    from collect_map_origin [OF cl "2"] obtain m ys where
      "andthen (py_getitem b_ops m) (\<lambda>b.
              andthen (py_getitem c_ops m) (\<lambda>c.
                operation_breaks limit base current (upper (py_str m)) path b c)) = Inr ys"
      and fy: "f \<in> set ys" by blast
    then obtain b c where
      "operation_breaks limit base current (upper (py_str m)) path b c = Inr ys"
      unfolding andthen_eq_Inr by blast
    from operation_breaks_findings [OF this fy] show ?thesis .
  qed auto
qed

lemma compare_documents_Inr:
  assumes "compare_documents limit base current = Inr out"
    and "get_paths base = Inr base_paths" and "get_paths current = Inr curr_paths"
  shows "\<exists>removed_paths common nested.
           sorted_removed base_paths curr_paths = Inr removed_paths
         \<and> sorted_common base_paths curr_paths = Inr common
         \<and> collect (map (path_breaks limit base current base_paths curr_paths) common) = Inr nested
         \<and> out = map RemovedPath removed_paths @ nested"
  using assms unfolding compare_documents_def andthen_eq_Inr by auto

lemma path_ops_keys:
  assumes "map_of paths path = Some (JObj item)"
  shows "\<exists>ops. path_ops (JObj paths) (SStr path) = Inr (JObj ops)
       \<and> fst ` set ops = {k \<in> fst ` set item. lower k \<in> set http_methods}"
proof -
  have "fst ` set (filter (\<lambda>kv. lower (fst kv) \<in> set http_methods) (dedup item))
        = {k \<in> fst ` set (dedup item). lower k \<in> set http_methods}"
    by auto
  then show ?thesis
    using assms by (simp add: path_ops_def andthen_def fst_set_dedup)
qed

lemma count_list_map_distinct:
  assumes "distinct xs" and "x \<in> set xs" and "inj g"
  shows "count_list (map g xs) (g x) = 1"
  using assms
proof (induction xs)
  case Nil
  then show ?case by simp
next
  case (Cons a xs)
  show ?case
  proof (cases "a = x")
    case True
    with Cons.prems have "g x \<notin> set (map g xs)" by (auto dest: injD)
    then have "count_list (map g xs) (g x) = 0" by (rule count_notin)
    with True show ?thesis by simp
  next
    case False
    with Cons.prems have "g a \<noteq> g x" by (auto dest: injD)
    with Cons False show ?thesis by simp
  qed
qed

section \<open>The self-referential node under a shared path\<close>

text \<open>
  Whatever documents the pointer to the node is resolved in, comparing the node with
  itself exhausts the recursion, and so does the comparison of an operation that responds
  with it.
\<close>

lemma node_cycle_exhausts:
  assumes b: "resolve_ref (py_or node_ref (JObj [])) base_doc {} = node_schema"
    and c: "resolve_ref (py_or node_ref (JObj [])) curr_doc {} = node_schema"
  shows "schema_breaks limit node_ref node_ref base_doc curr_doc ctx = Inl RecursionError"
proof (induction limit arbitrary: ctx)
  case 0
  show ?case by (simp add: schema_breaks.simps)
next
  case (Suc limit)
  have n: "JObj [(''$ref'', JStr ''#/components/schemas/Node'')] = node_ref"
    by (simp add: node_ref_def)
  show ?case
    unfolding schema_breaks.simps b c
    unfolding node_schema_def
    by (simp add: dict_get_def py_eq_def py_or_def sorted_removed_def sorted_common_def
        py_set_def py_sorted_def set_diff_def set_inter_def set_add_def set_contains_def
        andthen_def report_def n Suc)
qed

lemma resolve_in_gone_base: "resolve_ref (py_or node_ref (JObj [])) gone_base {} = node_schema"
  by (simp add: resolve_ref.simps py_or_def node_ref_def gone_base_def node_schema_def
      dict_get_def startswith_def)

lemma resolve_in_gone_current: "resolve_ref (py_or node_ref (JObj [])) gone_current {} = node_schema"
  by (simp add: resolve_ref.simps py_or_def node_ref_def gone_current_def node_schema_def
      dict_get_def startswith_def)

lemma node_op_exhausts:
  assumes "\<And>ctx. schema_breaks limit node_ref node_ref base current ctx = Inl RecursionError"
  shows "operation_breaks limit base current method path node_op node_op = Inl RecursionError"
  using assms [unfolded node_ref_def]
  by (simp add: operation_breaks_def required_params_def py_get_def get_or_empty_def node_op_def
      dict_get_def py_or_def andthen_def sorted_pairs_def success_codes_def startswith_def
      set_add_def set_contains_def py_sorted_def set_diff_def set_inter_def
      response_breaks_def response_content_def media_schema_def sorted_removed_def
      sorted_common_def py_set_def)

lemma resolve_in_case_base: "resolve_ref (py_or node_ref (JObj [])) case_base {} = node_schema"
  by (simp add: resolve_ref.simps py_or_def node_ref_def case_base_def node_schema_def
      dict_get_def startswith_def)

lemma resolve_in_case_current: "resolve_ref (py_or node_ref (JObj [])) case_current {} = node_schema"
  by (simp add: resolve_ref.simps py_or_def node_ref_def case_current_def node_schema_def
      dict_get_def startswith_def)

lemma lower_get: "lower ''get'' \<in> set http_methods" "lower ''GET'' \<in> set http_methods"
  "lower ''post'' \<in> set http_methods"
  by (simp_all add: lower_def lower_char_def http_methods_def)

section \<open>Removed paths\<close>

text \<open>
  Wherever the comparison returns its findings: let the \<^verbatim>\<open>paths\<close> of both documents be
  dicts, and \<open>path\<close> a key of the base paths that the current paths lack. Then the
  findings hold \<^verbatim>\<open>"Removed path: {path}"\<close> exactly once, and every other finding is either
  the removal of another path or was produced by the comparison of the operations of
  another path (\<open>path_breaks\<close> at a path different from \<open>path\<close>).
\<close>

theorem removed_path_reported_once:
  assumes bp: "get_paths base = Inr (JObj base_paths)"
    and cp: "get_paths current = Inr (JObj curr_paths)"
    and inb: "path \<in> fst ` set base_paths"
    and notc: "path \<notin> fst ` set curr_paths"
    and out: "compare_documents limit base current = Inr out"
  shows "count_list out (RemovedPath (SStr path)) = 1
       \<and> (\<forall>f\<in>set out. f = RemovedPath (SStr path)
            \<or> (\<exists>q. q \<noteq> SStr path
                 \<and> (f = RemovedPath q
                     \<or> (\<exists>xs. path_breaks limit base current (JObj base_paths) (JObj curr_paths) q = Inr xs
                              \<and> f \<in> set xs))))"
proof -
  from compare_documents_Inr [OF out bp cp] obtain removed_paths common nested where
    rp: "sorted_removed (JObj base_paths) (JObj curr_paths) = Inr removed_paths"
    and cm: "sorted_common (JObj base_paths) (JObj curr_paths) = Inr common"
    and cl: "collect (map (path_breaks limit base current (JObj base_paths) (JObj curr_paths)) common)
             = Inr nested"
    and o: "out = map RemovedPath removed_paths @ nested"
    by blast
  from sorted_removed_dict [of base_paths curr_paths] rp
  have dr: "distinct removed_paths"
    and sr: "set removed_paths = SStr ` (fst ` set base_paths - fst ` set curr_paths)"
    by auto
  from sorted_common_dict [of base_paths curr_paths] cm
  have sc: "set common = SStr ` (fst ` set base_paths \<inter> fst ` set curr_paths)"
    by auto
  have pin: "SStr path \<in> set removed_paths" using sr inb notc by auto
  have pnc: "SStr path \<notin> set common" using sc notc by auto
  have nested_origin: "\<exists>q xs. q \<in> set common
      \<and> path_breaks limit base current (JObj base_paths) (JObj curr_paths) q = Inr xs \<and> f \<in> set xs"
    if "f \<in> set nested" for f
    using collect_map_origin [OF cl that] by blast
  have no_rp: "RemovedPath q \<notin> set nested" for q
  proof
    assume "RemovedPath q \<in> set nested"
    from nested_origin [OF this] obtain q' xs where
      "path_breaks limit base current (JObj base_paths) (JObj curr_paths) q' = Inr xs"
      and "RemovedPath q \<in> set xs" by blast
    from path_breaks_findings [OF this] show False by simp
  qed
  have "count_list (map RemovedPath removed_paths) (RemovedPath (SStr path)) = 1"
    using dr pin by (rule count_list_map_distinct) (simp add: inj_def)
  moreover have "count_list nested (RemovedPath (SStr path)) = 0"
    using no_rp by (rule count_notin)
  ultimately have one: "count_list out (RemovedPath (SStr path)) = 1"
    using o by simp
  have rest: "f = RemovedPath (SStr path)
            \<or> (\<exists>q. q \<noteq> SStr path
                 \<and> (f = RemovedPath q
                     \<or> (\<exists>xs. path_breaks limit base current (JObj base_paths) (JObj curr_paths) q = Inr xs
                              \<and> f \<in> set xs)))"
    if "f \<in> set out" for f
  proof -
    from that o consider "f \<in> set (map RemovedPath removed_paths)" | "f \<in> set nested" by auto
    then show ?thesis
    proof cases
      case 1
      then show ?thesis by auto
    next
      case 2
      from nested_origin [OF this] obtain q xs where q: "q \<in> set common"
        and pb: "path_breaks limit base current (JObj base_paths) (JObj curr_paths) q = Inr xs"
        and fx: "f \<in> set xs" by blast
      from q pnc have "q \<noteq> SStr path" by auto
      with pb fx show ?thesis by blast
    qed
  qed
  show ?thesis
  proof (intro conjI ballI)
    show "count_list out (RemovedPath (SStr path)) = 1" by (rule one)
  next
    fix f
    assume "f \<in> set out"
    then show "f = RemovedPath (SStr path)
            \<or> (\<exists>q. q \<noteq> SStr path
                 \<and> (f = RemovedPath q
                     \<or> (\<exists>xs. path_breaks limit base current (JObj base_paths) (JObj curr_paths) q = Inr xs
                              \<and> f \<in> set xs)))"
      by (rule rest)
  qed
qed

theorem removed_path_reported_once_witness:
  "compare_documents 5 pets_base pets_current
     = Inr [RemovedPath (SStr ''/owners''), RemovedOperation ''GET'' (SStr ''/pets'')]
   \<and> count_list [RemovedPath (SStr ''/owners''), RemovedOperation ''GET'' (SStr ''/pets'')]
         (RemovedPath (SStr ''/owners'')) = 1"
proof -
  have bp: "get_paths pets_base
            = Inr (JObj [(''/pets'', JObj [(''GET'', pet_list_op), (''post'', pet_list_op)]),
                         (''/owners'', JObj [(''get'', pet_list_op)])])"
    by (simp add: get_paths_def pets_base_def)
  have cp: "get_paths pets_current
            = Inr (JObj [(''/pets'', JObj [(''get'', pet_list_op), (''post'', pet_list_op)])])"
    by (simp add: get_paths_def pets_current_def)
  have inb: "''/owners'' \<in> fst ` set [(''/pets'', JObj [(''GET'', pet_list_op), (''post'', pet_list_op)]),
                         (''/owners'', JObj [(''get'', pet_list_op)])]"
    by simp
  have notc: "''/owners'' \<notin> fst ` set [(''/pets'', JObj [(''get'', pet_list_op), (''post'', pet_list_op)])]"
    by simp
  have out: "compare_documents 5 pets_base pets_current
     = Inr [RemovedPath (SStr ''/owners''), RemovedOperation ''GET'' (SStr ''/pets'')]"
    by code_simp
  from removed_path_reported_once [OF bp cp inb notc out]
  have "count_list [RemovedPath (SStr ''/owners''), RemovedOperation ''GET'' (SStr ''/pets'')]
         (RemovedPath (SStr ''/owners'')) = 1"
    by (rule conjunct1)
  with out show ?thesis by (rule conjI)
qed

text \<open>
  Claim C9 fails on the script, by the defect of claim C1. The base document has the path
  \<^verbatim>\<open>/gone\<close>, which the current document lacks, and both share a path whose response is the
  self-referential node. The finding \<^verbatim>\<open>"Removed path: /gone"\<close> is appended first, but the
  comparison of the shared path then exhausts the recursion, whatever the limit: the
  comparison returns no list, and \<open>main\<close> ends in the uncaught \<open>RecursionError\<close> having
  printed nothing.
\<close>

theorem removed_path_lost_on_cycle:
  "compare_documents limit gone_base gone_current = Inl RecursionError
   \<and> main limit [''compare-openapi-breaking.py'', ''base.json'', ''current.json'']
       (\<lambda>path. if path = ''base.json'' then Inr gone_base else Inr gone_current)
     = \<lparr>stdout = [], stderr = [], outcome = Raised RecursionError\<rparr>"
proof -
  let ?bp = "[(''/gone'', JObj [(''get'', pet_list_op)]), (''/nodes'', JObj [(''get'', node_op)])]"
  let ?cp = "[(''/nodes'', JObj [(''get'', node_op)])]"
  have gb: "get_paths gone_base = Inr (JObj ?bp)" by (simp add: get_paths_def gone_base_def)
  have gc: "get_paths gone_current = Inr (JObj ?cp)" by (simp add: get_paths_def gone_current_def)
  have cyc: "schema_breaks limit node_ref node_ref gone_base gone_current ctx = Inl RecursionError"
    for ctx
    using resolve_in_gone_base resolve_in_gone_current by (rule node_cycle_exhausts)
  have op: "operation_breaks limit gone_base gone_current ''GET'' (SStr ''/nodes'') node_op node_op
            = Inl RecursionError"
    using cyc by (rule node_op_exhausts)
  have pb: "path_breaks limit gone_base gone_current (JObj ?bp) (JObj ?cp) (SStr ''/nodes'')
            = Inl RecursionError"
    by (simp add: path_breaks_def path_ops_def lower_get sorted_removed_def sorted_common_def
        py_set_def py_sorted_def set_diff_def set_inter_def set_add_def set_contains_def
        andthen_def upper_def upper_char_def op)
  have cd: "compare_documents limit gone_base gone_current = Inl RecursionError"
    by (simp add: compare_documents_def gb gc sorted_removed_def sorted_common_def
        py_set_def py_sorted_def set_diff_def set_inter_def set_add_def set_contains_def
        andthen_def pb)
  then show ?thesis by (simp add: main_def andthen_def)
qed

section \<open>Method keys\<close>

text \<open>
  Wherever the comparison returns its findings: let a path of both documents carry an
  operation keyed \<open>m\<close> in the base and keyed \<open>m'\<close> in the current document, the two keys
  equal up to case and in the method vocabulary (\<^verbatim>\<open>"GET"\<close> and \<^verbatim>\<open>"get"\<close>), and let the
  current path item have no key \<open>m\<close>. Then the findings hold
  \<^verbatim>\<open>"Removed operation: {m.upper()} {path}"\<close>, and \<open>m\<close> is not among the shared methods the
  loop over operations runs through.
\<close>

theorem method_keys_match_case_sensitively:
  assumes bp: "get_paths base = Inr (JObj base_paths)"
    and cp: "get_paths current = Inr (JObj curr_paths)"
    and bi: "map_of base_paths path = Some (JObj b_item)"
    and ci: "map_of curr_paths path = Some (JObj c_item)"
    and mb: "m \<in> fst ` set b_item"
    and mc: "m' \<in> fst ` set c_item"
    and same: "lower m = lower m'" "lower m \<in> set http_methods"
    and differ: "m \<notin> fst ` set c_item"
    and out: "compare_documents limit base current = Inr out"
  shows "RemovedOperation (upper m) (SStr path) \<in> set out
       \<and> (\<exists>b_ops c_ops common.
             path_ops (JObj base_paths) (SStr path) = Inr b_ops
           \<and> path_ops (JObj curr_paths) (SStr path) = Inr c_ops
           \<and> sorted_common b_ops c_ops = Inr common
           \<and> SStr m \<notin> set common)"
proof -
  from compare_documents_Inr [OF out bp cp] obtain removed_paths common_paths nested where
    cm: "sorted_common (JObj base_paths) (JObj curr_paths) = Inr common_paths"
    and cl: "collect (map (path_breaks limit base current (JObj base_paths) (JObj curr_paths)) common_paths)
             = Inr nested"
    and o: "out = map RemovedPath removed_paths @ nested"
    by blast
  from sorted_common_dict [of base_paths curr_paths] cm
  have "set common_paths = SStr ` (fst ` set base_paths \<inter> fst ` set curr_paths)" by auto
  moreover have "path \<in> fst ` set base_paths" "path \<in> fst ` set curr_paths"
    using map_of_SomeD [OF bi] map_of_SomeD [OF ci] by force+
  ultimately have "SStr path \<in> set common_paths" by auto
  from collect_map_all [OF cl this] obtain xs where
    pb: "path_breaks limit base current (JObj base_paths) (JObj curr_paths) (SStr path) = Inr xs"
    and sub: "set xs \<subseteq> set nested" by blast
  from path_breaks_Inr [OF pb] obtain b_ops c_ops removed_ops common nested' where
    pob: "path_ops (JObj base_paths) (SStr path) = Inr b_ops"
    and poc: "path_ops (JObj curr_paths) (SStr path) = Inr c_ops"
    and ro: "sorted_removed b_ops c_ops = Inr removed_ops"
    and co: "sorted_common b_ops c_ops = Inr common"
    and xs: "xs = map (\<lambda>method. RemovedOperation (upper (py_str method)) (SStr path)) removed_ops @ nested'"
    by blast
  from path_ops_keys [OF bi] pob obtain bo where
    bo: "b_ops = JObj bo" "fst ` set bo = {k \<in> fst ` set b_item. lower k \<in> set http_methods}"
    by auto
  from path_ops_keys [OF ci] poc obtain co' where
    co': "c_ops = JObj co'" "fst ` set co' = {k \<in> fst ` set c_item. lower k \<in> set http_methods}"
    by auto
  have inbo: "m \<in> fst ` set bo" using bo(2) mb same(2) by simp
  have notco: "m \<notin> fst ` set co'" using co'(2) differ by simp
  from sorted_removed_dict [of bo co'] ro bo(1) co'(1)
  have "set removed_ops = SStr ` (fst ` set bo - fst ` set co')" by auto
  with inbo notco have "SStr m \<in> set removed_ops" by auto
  then have "RemovedOperation (upper (py_str (SStr m))) (SStr path) \<in> set xs"
    unfolding xs by force
  with sub o have first: "RemovedOperation (upper m) (SStr path) \<in> set out" by auto
  from sorted_common_dict [of bo co'] co bo(1) co'(1)
  have "set common = SStr ` (fst ` set bo \<inter> fst ` set co')" by auto
  with notco have nc: "SStr m \<notin> set common" by auto
  have "\<exists>b_ops c_ops common.
             path_ops (JObj base_paths) (SStr path) = Inr b_ops
           \<and> path_ops (JObj curr_paths) (SStr path) = Inr c_ops
           \<and> sorted_common b_ops c_ops = Inr common
           \<and> SStr m \<notin> set common"
    using pob poc co nc by (intro exI conjI)
  with first show ?thesis by (rule conjI)
qed

theorem method_keys_match_case_sensitively_witness:
  "compare_documents 5 pets_base pets_current
     = Inr [RemovedPath (SStr ''/owners''), RemovedOperation ''GET'' (SStr ''/pets'')]
   \<and> RemovedOperation (upper ''GET'') (SStr ''/pets'')
       \<in> set [RemovedPath (SStr ''/owners''), RemovedOperation ''GET'' (SStr ''/pets'')]"
proof -
  have bp: "get_paths pets_base
            = Inr (JObj [(''/pets'', JObj [(''GET'', pet_list_op), (''post'', pet_list_op)]),
                         (''/owners'', JObj [(''get'', pet_list_op)])])"
    by (simp add: get_paths_def pets_base_def)
  have cp: "get_paths pets_current
            = Inr (JObj [(''/pets'', JObj [(''get'', pet_list_op), (''post'', pet_list_op)])])"
    by (simp add: get_paths_def pets_current_def)
  have bi: "map_of [(''/pets'', JObj [(''GET'', pet_list_op), (''post'', pet_list_op)]),
                    (''/owners'', JObj [(''get'', pet_list_op)])] ''/pets''
            = Some (JObj [(''GET'', pet_list_op), (''post'', pet_list_op)])"
    by simp
  have ci: "map_of [(''/pets'', JObj [(''get'', pet_list_op), (''post'', pet_list_op)])] ''/pets''
            = Some (JObj [(''get'', pet_list_op), (''post'', pet_list_op)])"
    by simp
  have mb: "''GET'' \<in> fst ` set [(''GET'', pet_list_op), (''post'', pet_list_op)]" by simp
  have mc: "''get'' \<in> fst ` set [(''get'', pet_list_op), (''post'', pet_list_op)]" by simp
  have same: "lower ''GET'' = lower ''get''" "lower ''GET'' \<in> set http_methods"
    by code_simp+
  have differ: "''GET'' \<notin> fst ` set [(''get'', pet_list_op), (''post'', pet_list_op)]" by simp
  have out: "compare_documents 5 pets_base pets_current
     = Inr [RemovedPath (SStr ''/owners''), RemovedOperation ''GET'' (SStr ''/pets'')]"
    by code_simp
  from method_keys_match_case_sensitively [OF bp cp bi ci mb mc same differ out]
  have "RemovedOperation (upper ''GET'') (SStr ''/pets'')
       \<in> set [RemovedPath (SStr ''/owners''), RemovedOperation ''GET'' (SStr ''/pets'')]"
    by (rule conjunct1)
  with out show ?thesis by (rule conjI)
qed

text \<open>
  Claim C10 fails on the script, by the defect of claim C1. The shared path carries
  \<^verbatim>\<open>"GET"\<close> in the base and \<^verbatim>\<open>"get"\<close> in the current document, and a shared \<^verbatim>\<open>post\<close> whose
  response is the self-referential node. The finding \<^verbatim>\<open>"Removed operation: GET /nodes"\<close> is
  appended first, but the comparison of \<^verbatim>\<open>post\<close> then exhausts the recursion, whatever the
  limit: the comparison returns no list, and \<open>main\<close> ends in the uncaught
  \<open>RecursionError\<close> having printed nothing.
\<close>

theorem removed_operation_lost_on_cycle:
  "compare_documents limit case_base case_current = Inl RecursionError
   \<and> main limit [''compare-openapi-breaking.py'', ''base.json'', ''current.json'']
       (\<lambda>path. if path = ''base.json'' then Inr case_base else Inr case_current)
     = \<lparr>stdout = [], stderr = [], outcome = Raised RecursionError\<rparr>"
proof -
  let ?bp = "[(''/nodes'', JObj [(''GET'', pet_list_op), (''post'', node_op)])]"
  let ?cp = "[(''/nodes'', JObj [(''get'', pet_list_op), (''post'', node_op)])]"
  have gb: "get_paths case_base = Inr (JObj ?bp)" by (simp add: get_paths_def case_base_def)
  have gc: "get_paths case_current = Inr (JObj ?cp)" by (simp add: get_paths_def case_current_def)
  have cyc: "schema_breaks limit node_ref node_ref case_base case_current ctx = Inl RecursionError"
    for ctx
    using resolve_in_case_base resolve_in_case_current by (rule node_cycle_exhausts)
  have op: "operation_breaks limit case_base case_current ''POST'' (SStr ''/nodes'') node_op node_op
            = Inl RecursionError"
    using cyc by (rule node_op_exhausts)
  have pb: "path_breaks limit case_base case_current (JObj ?bp) (JObj ?cp) (SStr ''/nodes'')
            = Inl RecursionError"
    by (simp add: path_breaks_def path_ops_def lower_get sorted_removed_def sorted_common_def
        py_set_def py_sorted_def set_diff_def set_inter_def set_add_def set_contains_def
        andthen_def upper_def upper_char_def op)
  have cd: "compare_documents limit case_base case_current = Inl RecursionError"
    by (simp add: compare_documents_def gb gc sorted_removed_def sorted_common_def
        py_set_def py_sorted_def set_diff_def set_inter_def set_add_def set_contains_def
        andthen_def pb)
  then show ?thesis by (simp add: main_def andthen_def)
qed
section \<open>Wrong number of arguments\<close>

text \<open>
  Claim C3, as the script has it. When \<^verbatim>\<open>sys.argv\<close> does not hold exactly the program
  name and two arguments, \<open>main\<close> prints the usage text with \<^verbatim>\<open>print\<close>, that is to
  standard output, writes nothing to standard error, and returns 2. The run is the same
  whatever the files hold and whatever the recursion limit: nothing is loaded or compared.
\<close>

theorem usage_on_wrong_arity:
  "length argv \<noteq> 3 \<Longrightarrow>
   main limit argv load = \<lparr>stdout = [Text usage], stderr = [], outcome = Returned 2\<rparr>"
  by (simp add: main_def)

theorem usage_on_wrong_arity_witness:
  "length [''compare-openapi-breaking.py'', ''base.json''] \<noteq> 3 \<and>
   main 1000 [''compare-openapi-breaking.py'', ''base.json''] (\<lambda>path. Inl LoadError)
   = \<lparr>stdout = [Text usage], stderr = [], outcome = Returned 2\<rparr>"
  using usage_on_wrong_arity [of "[''compare-openapi-breaking.py'', ''base.json'']" 1000 "\<lambda>path. Inl LoadError"]
  by simp

text \<open>The usage text does not reach standard error: the claim as written fails.\<close>

theorem usage_not_on_stderr:
  "stderr (main 1000 [''compare-openapi-breaking.py'', ''base.json''] (\<lambda>path. Inl LoadError)) = []
   \<and> stdout (main 1000 [''compare-openapi-breaking.py'', ''base.json''] (\<lambda>path. Inl LoadError))
     = [Text usage]"
  by (simp add: main_def)

end
